theory Spec2Isabelle
  imports Complex_Main
begin

section \<open>Tokens\<close>

text \<open>
  The repository holds two interpreters for one indentation-sensitive scripting language:
  the script parser (\<^verbatim>\<open>Lexer\<close>, \<^verbatim>\<open>Parser\<close>, \<^verbatim>\<open>Executor\<close>) and the loop mini-game
  (\<^verbatim>\<open>MiniLexer\<close>, \<^verbatim>\<open>MiniParser\<close>, \<^verbatim>\<open>MiniExecutor\<close>). A function that exists in
  both classes with different bodies is modelled twice, prefixed with the name of its
  class; a method whose body is the same in both classes is modelled once.

  Each module has its own \<^verbatim>\<open>TokenType\<close> table of strings. One datatype holds the union of
  the two tables. Its last constructor stands for a value that is no \<^verbatim>\<open>TokenType\<close> at
  all: the keyword lookup \<^verbatim>\<open>keywords[value.toLowerCase()] || IDENTIFIER\<close> reads a plain
  object, so the identifiers \<^verbatim>\<open>constructor\<close> and \<^verbatim>\<open>__proto__\<close> find a member inherited
  from \<^verbatim>\<open>Object.prototype\<close>, which becomes the token's type.
\<close>

datatype token_type =
  IDENTIFIER | NUMBER | STRING | LPAREN | RPAREN | COLON | COMMA | NEWLINE | INDENT | DEDENT
  | EOF | REPEAT | IF | FOR | IN | RANGE | WHILE | ELIF | ELSE | INHERITED

text \<open>
  A token is \<^verbatim>\<open>{ type, value, line, col }\<close>; structural tokens carry no value. Numbers are
  JavaScript doubles; they are modelled by the rational they denote.
\<close>

datatype tok_value = NoValue | NumValue rat | StrValue string

record token =
  ttype :: token_type
  tvalue :: tok_value
  tline :: nat
  tcol :: nat

definition mk_token :: "token_type \<Rightarrow> tok_value \<Rightarrow> nat \<Rightarrow> nat \<Rightarrow> token" where
  "mk_token ty v li co = \<lparr>ttype = ty, tvalue = v, tline = li, tcol = co\<rparr>"

text \<open>
  The \<^verbatim>\<open>SyntaxError\<close>s of the lexers and parsers, one constructor per message template:
  \<^item> \<open>Expected msg t\<close>: \<^verbatim>\<open>`${errorMsg} at line ${token.line}, col ${token.col}. Got ${token.type}`\<close>
  \<^item> \<open>UnexpectedToken t\<close>: \<^verbatim>\<open>`Unexpected token ${token.type} at line ${token.line}`\<close>
  \<^item> \<open>ExpectedBlock what li\<close>: \<^verbatim>\<open>`Expected indented block after ${what} at line ${li}`\<close>
  \<^item> \<open>ExpectedCondition li\<close>: \<^verbatim>\<open>`Expected condition at line ${li}`\<close>
  \<^item> \<open>IndentationError li\<close>: \<^verbatim>\<open>`Indentation error at line ${li}: inconsistent indentation`\<close>
\<close>

datatype syntax_error =
  Expected string token
  | UnexpectedToken token
  | ExpectedBlock string nat
  | ExpectedCondition nat
  | IndentationError nat

section \<open>The lexers\<close>

text \<open>
  The state of a lexer object. The source text and the cursor \<^verbatim>\<open>pos\<close> are kept as one
  field, the text from the cursor on (\<^verbatim>\<open>source.slice(pos)\<close>): the lexers only read at and
  after the cursor. The indentation stack has its top first.
\<close>

record lexer =
  rest :: string
  line :: nat
  col :: nat
  indentStack :: "nat list"
  tokens :: "token list"
  atLineStart :: bool

definition new_lexer :: "string \<Rightarrow> lexer" where
  "new_lexer source = \<lparr>rest = source, line = 1, col = 1, indentStack = [0], tokens = [],
     atLineStart = True\<rparr>"

definition newline :: char where
  "newline = CHR 0x0A"

definition tab :: char where
  "tab = CHR 0x09"

definition backslash :: char where
  "backslash = CHR 0x5C"

text \<open>\<^verbatim>\<open>peek(offset)\<close> is called with offsets 0 and 1; past the end it yields the empty string.\<close>

definition peek :: "lexer \<Rightarrow> char option" where
  "peek l = (case rest l of [] \<Rightarrow> None | c # cs \<Rightarrow> Some c)"

definition peek1 :: "lexer \<Rightarrow> char option" where
  "peek1 l = (case rest l of c # d # cs \<Rightarrow> Some d | _ \<Rightarrow> None)"

text \<open>\<^verbatim>\<open>advance()\<close> moves the cursor by one and keeps the line and column counters.\<close>

definition advance :: "lexer \<Rightarrow> lexer" where
  "advance l =
     (case rest l of
        [] \<Rightarrow> l\<lparr>col := col l + 1\<rparr>
      | c # cs \<Rightarrow>
          if c = newline then l\<lparr>rest := cs, line := line l + 1, col := 1\<rparr>
          else l\<lparr>rest := cs, col := col l + 1\<rparr>)"

text \<open>
  The loops \<^verbatim>\<open>while (test(this.peek())) this.advance()\<close>; the characters they collect
  are \<open>takeWhile test\<close> of the text at the cursor.
\<close>

function advance_while :: "(char \<Rightarrow> bool) \<Rightarrow> lexer \<Rightarrow> lexer" where
  "advance_while P l =
     (case rest l of
        [] \<Rightarrow> l
      | c # cs \<Rightarrow> if P c then advance_while P (advance l) else l)"
  by pat_completeness auto
termination
  by (relation "measure (\<lambda>(P, l). length (rest l))") (auto simp: advance_def)

definition isDigit :: "char \<Rightarrow> bool" where
  "isDigit ch \<longleftrightarrow> (48::nat) \<le> of_char ch \<and> of_char ch \<le> (57::nat)"

definition isAlpha :: "char \<Rightarrow> bool" where
  "isAlpha ch \<longleftrightarrow> ((97::nat) \<le> of_char ch \<and> of_char ch \<le> (122::nat))
     \<or> ((65::nat) \<le> of_char ch \<and> of_char ch \<le> (90::nat))"

definition isAlphaNumeric :: "char \<Rightarrow> bool" where
  "isAlphaNumeric ch \<longleftrightarrow> isAlpha ch \<or> isDigit ch \<or> ch = CHR ''_''"

definition isBlank :: "char \<Rightarrow> bool" where
  "isBlank ch \<longleftrightarrow> ch = CHR '' '' \<or> ch = tab"

definition skipWhitespaceOnLine :: "lexer \<Rightarrow> lexer" where
  "skipWhitespaceOnLine l = advance_while isBlank l"

definition skipComment :: "lexer \<Rightarrow> lexer" where
  "skipComment l = advance_while (\<lambda>ch. ch \<noteq> newline) l"

text \<open>\<^verbatim>\<open>measureIndent()\<close>: a space counts one, a tab four.\<close>

function measureIndent_loop :: "nat \<Rightarrow> lexer \<Rightarrow> nat \<times> lexer" where
  "measureIndent_loop indent l =
     (case rest l of
        [] \<Rightarrow> (indent, l)
      | ch # cs \<Rightarrow>
          if ch = CHR '' '' then measureIndent_loop (indent + 1) (advance l)
          else if ch = tab then measureIndent_loop (indent + 4) (advance l)
          else (indent, l))"
  by pat_completeness auto
termination
  by (relation "measure (\<lambda>(indent, l). length (rest l))") (auto simp: advance_def)

definition measureIndent :: "lexer \<Rightarrow> nat \<times> lexer" where
  "measureIndent l = measureIndent_loop 0 l"

text \<open>
  \<^verbatim>\<open>readString(quote)\<close>, of the script lexer only. A backslash takes the next character
  with it; at the end of the text that character is the empty string.
\<close>

function readString_loop :: "char \<Rightarrow> string \<Rightarrow> lexer \<Rightarrow> string \<times> lexer" where
  "readString_loop quote val l =
     (case rest l of
        [] \<Rightarrow> (val, l)
      | ch # cs \<Rightarrow>
          if ch = quote \<or> ch = newline then (val, l)
          else if ch = backslash then
            (let l1 = advance l;
                 val1 = (case peek l1 of
                           None \<Rightarrow> val
                         | Some escaped \<Rightarrow>
                             if escaped = CHR ''n'' then val @ [newline]
                             else if escaped = CHR ''t'' then val @ [tab]
                             else if escaped = backslash then val @ [backslash]
                             else if escaped = quote then val @ [quote]
                             else val @ [escaped])
             in readString_loop quote val1 (advance l1))
          else readString_loop quote (val @ [ch]) (advance l))"
  by pat_completeness auto
termination
  by (relation "measure (\<lambda>(quote, val, l). length (rest l))")
    (auto simp: advance_def split: list.splits)

definition readString :: "char \<Rightarrow> lexer \<Rightarrow> token \<times> lexer" where
  "readString quote l =
     (let startLine = line l; startCol = col l;
          (val, l1) = readString_loop quote [] (advance l);
          l2 = (if peek l1 = Some quote then advance l1 else l1)
      in (mk_token STRING (StrValue val) startLine startCol, l2))"

text \<open>
  Number literals. \<^verbatim>\<open>parseFloat\<close> and \<^verbatim>\<open>parseInt\<close> are applied to texts of the shape
  \<^verbatim>\<open>-?[0-9]+(.[0-9]+)?\<close> only; the model gives the exact decimal value of such a text.
  That is what JavaScript returns whenever the value is itself a double: every integer
  up to \<open>2^53\<close>, and every fraction with a short binary expansion, such as \<^verbatim>\<open>2.5\<close> or
  \<^verbatim>\<open>3.9375\<close>. At any other literal (\<^verbatim>\<open>0.1\<close>, an integer above \<open>2^53\<close>) JavaScript
  rounds to the nearest double and the model does not; the statements below that depend
  on the value of a literal use literals of the first kind only.
\<close>

definition digit_value :: "char \<Rightarrow> nat" where
  "digit_value ch = of_char ch - 48"

definition digits_value :: "string \<Rightarrow> nat" where
  "digits_value ds = foldl (\<lambda>n ch. 10 * n + digit_value ch) 0 ds"

definition parseFloat :: "string \<Rightarrow> rat" where
  "parseFloat s =
     (let neg = (case s of [] \<Rightarrow> False | ch # cs \<Rightarrow> ch = CHR ''-'');
          body = (if neg then tl s else s);
          whole = takeWhile isDigit body;
          frac = (case dropWhile isDigit body of
                    [] \<Rightarrow> []
                  | ch # cs \<Rightarrow> if ch = CHR ''.'' then takeWhile isDigit cs else []);
          magnitude = of_nat (digits_value whole) + of_nat (digits_value frac) / 10 ^ length frac
      in if neg then - magnitude else magnitude)"

definition parseInt :: "string \<Rightarrow> int" where
  "parseInt s =
     (let neg = (case s of [] \<Rightarrow> False | ch # cs \<Rightarrow> ch = CHR ''-'');
          body = (if neg then tl s else s);
          magnitude = int (digits_value (takeWhile isDigit body))
      in if neg then - magnitude else magnitude)"

definition Lexer_readNumber :: "lexer \<Rightarrow> token \<times> lexer" where
  "Lexer_readNumber l =
     (let startLine = line l; startCol = col l;
          (sign, l1) = (if peek l = Some (CHR ''-'') then (''-'', advance l) else ([], l));
          whole = takeWhile isDigit (rest l1);
          l2 = advance_while isDigit l1;
          (frac, l3) =
            (if peek l2 = Some (CHR ''.'') \<and> (case peek1 l2 of None \<Rightarrow> False | Some d \<Rightarrow> isDigit d)
             then (let l21 = advance l2
                   in (CHR ''.'' # takeWhile isDigit (rest l21), advance_while isDigit l21))
             else ([], l2))
      in (mk_token NUMBER (NumValue (parseFloat (sign @ whole @ frac))) startLine startCol, l3))"

definition MiniLexer_readNumber :: "lexer \<Rightarrow> token \<times> lexer" where
  "MiniLexer_readNumber l =
     (let startLine = line l; startCol = col l;
          (sign, l1) = (if peek l = Some (CHR ''-'') then (''-'', advance l) else ([], l));
          whole = takeWhile isDigit (rest l1);
          l2 = advance_while isDigit l1
      in (mk_token NUMBER (NumValue (of_int (parseInt (sign @ whole)))) startLine startCol, l2))"

text \<open>
  Identifiers and keywords. The keyword tables are object literals, read with the
  lower-cased identifier as key.
\<close>

definition lower :: "char \<Rightarrow> char" where
  "lower ch = (if (65::nat) \<le> of_char ch \<and> of_char ch \<le> (90::nat)
     then char_of (of_char ch + (32::nat)) else ch)"

definition toLowerCase :: "string \<Rightarrow> string" where
  "toLowerCase s = map lower s"

definition inherited_key :: "string \<Rightarrow> bool" where
  "inherited_key k \<longleftrightarrow> k = ''constructor'' \<or> k = ''__proto__''"

definition Lexer_keywords :: "string \<Rightarrow> token_type option" where
  "Lexer_keywords k =
     (if k = ''repeat'' then Some REPEAT
      else if k = ''if'' then Some IF
      else if inherited_key k then Some INHERITED
      else None)"

definition MiniLexer_keywords :: "string \<Rightarrow> token_type option" where
  "MiniLexer_keywords k =
     (if k = ''for'' then Some FOR
      else if k = ''in'' then Some IN
      else if k = ''range'' then Some RANGE
      else if k = ''while'' then Some WHILE
      else if k = ''if'' then Some IF
      else if k = ''elif'' then Some ELIF
      else if k = ''else'' then Some ELSE
      else if inherited_key k then Some INHERITED
      else None)"

definition readIdentifier :: "(string \<Rightarrow> token_type option) \<Rightarrow> lexer \<Rightarrow> token \<times> lexer" where
  "readIdentifier keywords l =
     (let startLine = line l; startCol = col l;
          val = takeWhile isAlphaNumeric (rest l);
          l1 = advance_while isAlphaNumeric l;
          ty = (case keywords (toLowerCase val) of None \<Rightarrow> IDENTIFIER | Some k \<Rightarrow> k)
      in (mk_token ty (StrValue val) startLine startCol, l1))"

text \<open>
  Indentation. A line indented less than the top of the stack pops levels, one
  \<^verbatim>\<open>DEDENT\<close> each, while the stack has more than one entry and its top is greater than
  the line's indent; at the end of the text every level still open is closed.
\<close>

definition push_token :: "token \<Rightarrow> lexer \<Rightarrow> lexer" where
  "push_token t l = l\<lparr>tokens := tokens l @ [t]\<rparr>"

function dedent_loop :: "nat \<Rightarrow> lexer \<Rightarrow> lexer" where
  "dedent_loop indent l =
     (if length (indentStack l) > 1 \<and> hd (indentStack l) > indent
      then dedent_loop indent
             (push_token (mk_token DEDENT NoValue (line l) 1) (l\<lparr>indentStack := tl (indentStack l)\<rparr>))
      else l)"
  by pat_completeness auto
termination
  by (relation "measure (\<lambda>(indent, l). length (indentStack l))") (auto simp: push_token_def)

function flush_dedents :: "lexer \<Rightarrow> lexer" where
  "flush_dedents l =
     (if length (indentStack l) > 1
      then flush_dedents
             (push_token (mk_token DEDENT NoValue (line l) (col l))
                (l\<lparr>indentStack := tl (indentStack l)\<rparr>))
      else l)"
  by pat_completeness auto
termination
  by (relation "measure (\<lambda>l. length (indentStack l))") (auto simp: push_token_def)

text \<open>
  One round of the loop of \<^verbatim>\<open>tokenize()\<close> is the line-start block, when the flag is set,
  followed by the scan of one token. The line-start block ends in \<^verbatim>\<open>continue\<close> (a blank
  or comment line), in \<^verbatim>\<open>break\<close> (end of text), by falling through to the scan, or, in
  the mini-game lexer only, by throwing.
\<close>

datatype step = Continue lexer | Break lexer | Proceed lexer | Throw syntax_error

definition skip_blank_line :: "lexer \<Rightarrow> lexer" where
  "skip_blank_line l =
     (let l1 = (if peek l = Some (CHR ''#'') then skipComment l else l)
      in if peek l1 = Some newline then advance l1 else l1)"

definition Lexer_lineStart :: "lexer \<Rightarrow> step" where
  "Lexer_lineStart l =
     (let (indent, l1) = measureIndent l
      in if peek l1 = Some newline \<or> peek l1 = Some (CHR ''#'') then Continue (skip_blank_line l1)
         else if peek l1 = None then Break l1
         else
           (let l2 = (case indentStack l1 of
                        [] \<Rightarrow> l1
                      | currentIndent # below \<Rightarrow>
                          if indent > currentIndent
                          then push_token (mk_token INDENT NoValue (line l1) 1)
                                 (l1\<lparr>indentStack := indent # indentStack l1\<rparr>)
                          else if indent < currentIndent then dedent_loop indent l1
                          else l1)
            in Proceed (l2\<lparr>atLineStart := False\<rparr>)))"

definition MiniLexer_lineStart :: "lexer \<Rightarrow> step" where
  "MiniLexer_lineStart l =
     (let (indent, l1) = measureIndent l
      in if peek l1 = Some newline \<or> peek l1 = Some (CHR ''#'') then Continue (skip_blank_line l1)
         else if peek l1 = None then Break l1
         else
           (case indentStack l1 of
              [] \<Rightarrow> Proceed (l1\<lparr>atLineStart := False\<rparr>)
            | currentIndent # below \<Rightarrow>
                if indent > currentIndent
                then Proceed (push_token (mk_token INDENT NoValue (line l1) 1)
                              (l1\<lparr>indentStack := indent # indentStack l1, atLineStart := False\<rparr>))
                else if indent < currentIndent then
                  (let l2 = dedent_loop indent l1
                   in case indentStack l2 of
                        [] \<Rightarrow> Proceed (l2\<lparr>atLineStart := False\<rparr>)
                      | cur # others \<Rightarrow>
                          if cur \<noteq> indent then Throw (IndentationError (line l2))
                          else Proceed (l2\<lparr>atLineStart := False\<rparr>))
                else Proceed (l1\<lparr>atLineStart := False\<rparr>)))"

definition punctuation :: "char \<Rightarrow> token_type option" where
  "punctuation ch =
     (if ch = CHR ''('' then Some LPAREN
      else if ch = CHR '')'' then Some RPAREN
      else if ch = CHR '':'' then Some COLON
      else if ch = CHR '','' then Some COMMA
      else None)"

definition starts_number :: "lexer \<Rightarrow> char \<Rightarrow> bool" where
  "starts_number l ch \<longleftrightarrow>
     isDigit ch \<or> (ch = CHR ''-'' \<and> (case peek1 l of None \<Rightarrow> False | Some d \<Rightarrow> isDigit d))"

definition Lexer_scan :: "lexer \<Rightarrow> lexer" where
  "Lexer_scan l =
     (case peek l of
        None \<Rightarrow> advance l
      | Some ch \<Rightarrow>
          if isBlank ch then skipWhitespaceOnLine l
          else if ch = newline
          then (advance (push_token (mk_token NEWLINE NoValue (line l) (col l)) l))\<lparr>atLineStart := True\<rparr>
          else if ch = CHR ''#'' then skipComment l
          else if punctuation ch \<noteq> None
          then advance (push_token (mk_token (the (punctuation ch)) NoValue (line l) (col l)) l)
          else if ch = CHR 0x22 \<or> ch = CHR 0x27
          then (let (t, l1) = readString ch l in push_token t l1)
          else if starts_number l ch
          then (let (t, l1) = Lexer_readNumber l in push_token t l1)
          else if isAlpha ch \<or> ch = CHR ''_''
          then (let (t, l1) = readIdentifier Lexer_keywords l in push_token t l1)
          else advance l)"

definition MiniLexer_scan :: "lexer \<Rightarrow> lexer" where
  "MiniLexer_scan l =
     (case peek l of
        None \<Rightarrow> advance l
      | Some ch \<Rightarrow>
          if isBlank ch then skipWhitespaceOnLine l
          else if ch = newline
          then (advance (push_token (mk_token NEWLINE NoValue (line l) (col l)) l))\<lparr>atLineStart := True\<rparr>
          else if ch = CHR ''#'' then skipComment l
          else if punctuation ch \<noteq> None
          then advance (push_token (mk_token (the (punctuation ch)) NoValue (line l) (col l)) l)
          else if starts_number l ch
          then (let (t, l1) = MiniLexer_readNumber l in push_token t l1)
          else if isAlpha ch \<or> ch = CHR ''_''
          then (let (t, l1) = readIdentifier MiniLexer_keywords l in push_token t l1)
          else advance l)"

definition Lexer_iteration :: "lexer \<Rightarrow> step" where
  "Lexer_iteration l =
     (if atLineStart l
      then (case Lexer_lineStart l of Proceed l1 \<Rightarrow> Continue (Lexer_scan l1) | other \<Rightarrow> other)
      else Continue (Lexer_scan l))"

definition MiniLexer_iteration :: "lexer \<Rightarrow> step" where
  "MiniLexer_iteration l =
     (if atLineStart l
      then (case MiniLexer_lineStart l of Proceed l1 \<Rightarrow> Continue (MiniLexer_scan l1) | other \<Rightarrow> other)
      else Continue (MiniLexer_scan l))"

subsection \<open>Every round consumes text\<close>

declare advance_while.simps [simp del]
declare measureIndent_loop.simps [simp del]
declare readString_loop.simps [simp del]
declare dedent_loop.simps [simp del]
declare flush_dedents.simps [simp del]

lemma advance_fields [simp]:
  "rest (advance l) = tl (rest l)"
  "tokens (advance l) = tokens l"
  "indentStack (advance l) = indentStack l"
  "atLineStart (advance l) = atLineStart l"
  by (auto simp: advance_def split: list.splits)

lemma push_token_fields [simp]:
  "rest (push_token t l) = rest l"
  "tokens (push_token t l) = tokens l @ [t]"
  "indentStack (push_token t l) = indentStack l"
  "line (push_token t l) = line l"
  "col (push_token t l) = col l"
  "atLineStart (push_token t l) = atLineStart l"
  by (simp_all add: push_token_def)

lemma peek_simps [simp]:
  "peek l = None \<longleftrightarrow> rest l = []"
  "peek l = Some ch \<longleftrightarrow> (\<exists>cs. rest l = ch # cs)"
  by (auto simp: peek_def split: list.splits)

lemma rest_advance_while [simp]: "rest (advance_while P l) = dropWhile P (rest l)"
proof (induction P l rule: advance_while.induct)
  case (1 P l)
  then show ?case
    by (subst advance_while.simps) (auto split: list.splits)
qed

lemma tokens_advance_while [simp]: "tokens (advance_while P l) = tokens l"
proof (induction P l rule: advance_while.induct)
  case (1 P l)
  then show ?case
    by (subst advance_while.simps) (auto split: list.splits)
qed

lemma indentStack_advance_while [simp]: "indentStack (advance_while P l) = indentStack l"
proof (induction P l rule: advance_while.induct)
  case (1 P l)
  then show ?case
    by (subst advance_while.simps) (auto split: list.splits)
qed

lemma measureIndent_loop_fields:
  "measureIndent_loop indent l = (i, l1) \<Longrightarrow>
     rest l1 = dropWhile isBlank (rest l) \<and> tokens l1 = tokens l
     \<and> indentStack l1 = indentStack l"
proof (induction indent l rule: measureIndent_loop.induct)
  case (1 indent l)
  show ?case
  proof (cases "rest l")
    case Nil
    with "1.prems" show ?thesis
      by (subst (asm) measureIndent_loop.simps) auto
  next
    case (Cons ch cs)
    show ?thesis
    proof (cases "ch = CHR '' ''")
      case True
      with Cons "1.prems" have "measureIndent_loop (indent + 1) (advance l) = (i, l1)"
        by (subst (asm) measureIndent_loop.simps) auto
      from "1.IH"(1) [OF Cons True this] Cons True show ?thesis
        by (simp add: isBlank_def)
    next
      case nospace: False
      show ?thesis
      proof (cases "ch = tab")
        case True
        with nospace Cons "1.prems" have "measureIndent_loop (indent + 4) (advance l) = (i, l1)"
          by (subst (asm) measureIndent_loop.simps) auto
        from "1.IH"(2) [OF Cons nospace True this] Cons True show ?thesis
          by (simp add: isBlank_def)
      next
        case False
        with nospace Cons "1.prems" show ?thesis
          by (subst (asm) measureIndent_loop.simps) (auto simp: isBlank_def)
      qed
    qed
  qed
qed

lemma readString_loop_fields:
  "readString_loop quote val l = (v, l1) \<Longrightarrow>
     length (rest l1) \<le> length (rest l) \<and> tokens l1 = tokens l
     \<and> indentStack l1 = indentStack l"
proof (induction quote val l rule: readString_loop.induct)
  case (1 quote val l)
  show ?case
  proof (cases "rest l")
    case Nil
    with "1.prems" show ?thesis
      by (subst (asm) readString_loop.simps) auto
  next
    case (Cons ch cs)
    show ?thesis
    proof (cases "ch = quote \<or> ch = newline")
      case True
      with Cons "1.prems" show ?thesis
        by (subst (asm) readString_loop.simps) auto
    next
      case stop: False
      show ?thesis
      proof (cases "ch = backslash")
        case True
        with stop Cons "1.prems" "1.IH"(1) [OF Cons stop True refl refl] show ?thesis
          by (subst (asm) readString_loop.simps) (auto simp: Let_def)
      next
        case False
        with stop Cons "1.prems" "1.IH"(2) [OF Cons stop False] show ?thesis
          by (subst (asm) readString_loop.simps) (auto simp: Let_def)
      qed
    qed
  qed
qed


lemma dedent_loop_fields [simp]:
  "rest (dedent_loop indent l) = rest l"
proof (induction indent l rule: dedent_loop.induct)
  case (1 indent l)
  then show ?case
    by (subst dedent_loop.simps) (auto split: list.splits)
qed

lemma length_dropWhile_less_Suc [simp]:
  "length (dropWhile P xs) \<le> length xs"
  "length (dropWhile P xs) < Suc (length xs)"
  "length (dropWhile P xs) \<le> Suc (length xs)"
  by (simp_all add: length_dropWhile_le le_imp_less_Suc le_SucI)

lemma dropWhile_tl_le: "length (dropWhile P (tl xs)) \<le> length xs"
  by (metis diff_le_self le_trans length_dropWhile_le length_tl)

lemma Lexer_readNumber_rest:
  assumes "Lexer_readNumber l = (t, l1)" and "starts_number l ch" and "rest l = ch # cs"
  shows "length (rest l1) < length (rest l)"
proof -
  define l2 where "l2 = advance_while isDigit (if ch = CHR ''-'' then advance l else l)"
  have "length (rest l2) \<le> length cs"
    using assms(2,3) by (auto simp: l2_def starts_number_def)
  moreover have "length (rest l1) \<le> length (rest l2)"
    using assms(1,3)
    by (auto simp: Lexer_readNumber_def Let_def l2_def dropWhile_tl_le split: if_splits prod.splits)
  ultimately show ?thesis
    using assms(3) by simp
qed

lemma MiniLexer_readNumber_rest:
  assumes "MiniLexer_readNumber l = (t, l1)" and "starts_number l ch" and "rest l = ch # cs"
  shows "length (rest l1) < length (rest l)"
proof -
  have "l1 = advance_while isDigit (if ch = CHR ''-'' then advance l else l)"
    using assms(1,3)
    by (auto simp: MiniLexer_readNumber_def Let_def split: if_splits prod.splits)
  then have "length (rest l1) \<le> length cs"
    using assms(2,3) by (auto simp: starts_number_def)
  then show ?thesis
    using assms(3) by simp
qed

lemma readIdentifier_rest:
  assumes "readIdentifier kw l = (t, l1)" and "isAlpha ch \<or> ch = CHR ''_''" and "rest l = ch # cs"
  shows "length (rest l1) < length (rest l)"
proof -
  have "l1 = advance_while isAlphaNumeric l"
    using assms(1) by (auto simp: readIdentifier_def Let_def)
  moreover have "isAlphaNumeric ch"
    using assms(2) by (auto simp: isAlphaNumeric_def)
  ultimately show ?thesis
    using assms(3) by (simp add: le_imp_less_Suc)
qed

lemma readString_rest:
  assumes "readString quote l = (t, l1)" and "rest l = ch # cs"
  shows "length (rest l1) < length (rest l)"
proof -
  obtain v l2 where loop: "readString_loop quote [] (advance l) = (v, l2)"
    by (cases "readString_loop quote [] (advance l)")
  from readString_loop_fields [OF loop] assms(2) have "length (rest l2) \<le> length cs"
    by simp
  moreover have "length (rest l1) \<le> length (rest l2)"
    using assms(1) loop by (auto simp: readString_def Let_def split: if_splits)
  ultimately show ?thesis
    using assms(2) by simp
qed

lemma Lexer_scan_rest:
  assumes "rest l \<noteq> []"
  shows "length (rest (Lexer_scan l)) < length (rest l)"
proof -
  from assms obtain ch cs where l: "rest l = ch # cs"
    by (cases "rest l") auto
  then have pk: "peek l = Some ch"
    by simp
  show ?thesis
    unfolding Lexer_scan_def pk option.case
    using l Lexer_readNumber_rest [of l _ _ ch cs] readIdentifier_rest [of Lexer_keywords l _ _ ch cs]
      readString_rest [of ch l _ _ ch cs]
    by (auto simp: skipWhitespaceOnLine_def skipComment_def le_imp_less_Suc
        split: prod.splits)
qed

lemma MiniLexer_scan_rest:
  assumes "rest l \<noteq> []"
  shows "length (rest (MiniLexer_scan l)) < length (rest l)"
proof -
  from assms obtain ch cs where l: "rest l = ch # cs"
    by (cases "rest l") auto
  then have pk: "peek l = Some ch"
    by simp
  show ?thesis
    unfolding MiniLexer_scan_def pk option.case
    using l MiniLexer_readNumber_rest [of l _ _ ch cs]
      readIdentifier_rest [of MiniLexer_keywords l _ _ ch cs]
    by (auto simp: skipWhitespaceOnLine_def skipComment_def le_imp_less_Suc
        split: prod.splits)
qed


lemma skip_blank_line_rest:
  assumes "peek l = Some newline \<or> peek l = Some (CHR ''#'')"
  shows "length (rest (skip_blank_line l)) < length (rest l)"
proof -
  from assms obtain ch cs where l: "rest l = ch # cs" and ch: "ch = newline \<or> ch = CHR ''#''"
    by auto
  show ?thesis
  proof (cases "ch = CHR ''#''")
    case True
    then have "length (rest (skipComment l)) \<le> length cs"
      using l by (simp add: skipComment_def newline_def)
    moreover have "length (rest (skip_blank_line l)) \<le> length (rest (skipComment l))"
      using l True by (auto simp: skip_blank_line_def Let_def)
    ultimately show ?thesis
      using l by simp
  next
    case False
    with ch l show ?thesis
      by (auto simp: skip_blank_line_def Let_def)
  qed
qed

lemma measureIndent_rest:
  "measureIndent l = (i, l1) \<Longrightarrow> length (rest l1) \<le> length (rest l)"
  by (auto simp: measureIndent_def dest: measureIndent_loop_fields)

lemma Lexer_lineStart_Continue:
  assumes "Lexer_lineStart l = Continue l1"
  shows "length (rest l1) < length (rest l)"
proof -
  obtain i l0 where m: "measureIndent l = (i, l0)"
    by (cases "measureIndent l")
  with assms have "peek l0 = Some newline \<or> peek l0 = Some (CHR ''#'')" and "l1 = skip_blank_line l0"
    by (auto simp: Lexer_lineStart_def Let_def split: if_splits)
  with skip_blank_line_rest [of l0] measureIndent_rest [OF m] show ?thesis
    by simp
qed

lemma Lexer_lineStart_Proceed:
  assumes "Lexer_lineStart l = Proceed l1"
  shows "rest l1 \<noteq> [] \<and> length (rest l1) \<le> length (rest l)"
proof -
  obtain i l0 where m: "measureIndent l = (i, l0)"
    by (cases "measureIndent l")
  with assms have "rest l0 \<noteq> []" and "rest l1 = rest l0"
    by (auto simp: Lexer_lineStart_def Let_def split: if_splits list.splits)
  with measureIndent_rest [OF m] show ?thesis
    by simp
qed

lemma MiniLexer_lineStart_Continue:
  assumes "MiniLexer_lineStart l = Continue l1"
  shows "length (rest l1) < length (rest l)"
proof -
  obtain i l0 where m: "measureIndent l = (i, l0)"
    by (cases "measureIndent l")
  with assms have "peek l0 = Some newline \<or> peek l0 = Some (CHR ''#'')" and "l1 = skip_blank_line l0"
    by (auto simp: MiniLexer_lineStart_def Let_def split: if_splits list.splits)
  with skip_blank_line_rest [of l0] measureIndent_rest [OF m] show ?thesis
    by simp
qed

lemma MiniLexer_lineStart_Proceed:
  assumes "MiniLexer_lineStart l = Proceed l1"
  shows "rest l1 \<noteq> [] \<and> length (rest l1) \<le> length (rest l)"
proof -
  obtain i l0 where m: "measureIndent l = (i, l0)"
    by (cases "measureIndent l")
  with assms have "rest l0 \<noteq> []" and "rest l1 = rest l0"
    by (auto simp: MiniLexer_lineStart_def Let_def split: if_splits list.splits)
  with measureIndent_rest [OF m] show ?thesis
    by simp
qed

lemma Lexer_iteration_rest:
  assumes "rest l \<noteq> []" and "Lexer_iteration l = Continue l1"
  shows "length (rest l1) < length (rest l)"
proof (cases "atLineStart l")
  case True
  show ?thesis
  proof (cases "Lexer_lineStart l")
    case (Continue l2)
    with True assms(2) Lexer_lineStart_Continue [OF Continue] show ?thesis
      by (simp add: Lexer_iteration_def)
  next
    case (Proceed l2)
    with True assms(2) Lexer_lineStart_Proceed [OF Proceed] Lexer_scan_rest [of l2] show ?thesis
      by (auto simp: Lexer_iteration_def)
  qed (use True assms(2) in \<open>auto simp: Lexer_iteration_def\<close>)
next
  case False
  with assms Lexer_scan_rest [of l] show ?thesis
    by (auto simp: Lexer_iteration_def)
qed

lemma MiniLexer_iteration_rest:
  assumes "rest l \<noteq> []" and "MiniLexer_iteration l = Continue l1"
  shows "length (rest l1) < length (rest l)"
proof (cases "atLineStart l")
  case True
  show ?thesis
  proof (cases "MiniLexer_lineStart l")
    case (Continue l2)
    with True assms(2) MiniLexer_lineStart_Continue [OF Continue] show ?thesis
      by (simp add: MiniLexer_iteration_def)
  next
    case (Proceed l2)
    with True assms(2) MiniLexer_lineStart_Proceed [OF Proceed] MiniLexer_scan_rest [of l2]
    show ?thesis
      by (auto simp: MiniLexer_iteration_def)
  qed (use True assms(2) in \<open>auto simp: MiniLexer_iteration_def\<close>)
next
  case False
  with assms MiniLexer_scan_rest [of l] show ?thesis
    by (auto simp: MiniLexer_iteration_def)
qed

subsection \<open>The loop and the result of \<^verbatim>\<open>tokenize()\<close>\<close>

function Lexer_loop :: "lexer \<Rightarrow> syntax_error + lexer" where
  "Lexer_loop l =
     (if rest l = [] then Inr l
      else (case Lexer_iteration l of
              Continue l1 \<Rightarrow> Lexer_loop l1
            | Break l1 \<Rightarrow> Inr l1
            | Proceed l1 \<Rightarrow> Inr l1
            | Throw e \<Rightarrow> Inl e))"
  by pat_completeness auto
termination
  by (relation "measure (\<lambda>l. length (rest l))") (auto simp: Lexer_iteration_rest)

function MiniLexer_loop :: "lexer \<Rightarrow> syntax_error + lexer" where
  "MiniLexer_loop l =
     (if rest l = [] then Inr l
      else (case MiniLexer_iteration l of
              Continue l1 \<Rightarrow> MiniLexer_loop l1
            | Break l1 \<Rightarrow> Inr l1
            | Proceed l1 \<Rightarrow> Inr l1
            | Throw e \<Rightarrow> Inl e))"
  by pat_completeness auto
termination
  by (relation "measure (\<lambda>l. length (rest l))") (auto simp: MiniLexer_iteration_rest)

declare Lexer_loop.simps [simp del]
declare MiniLexer_loop.simps [simp del]

definition finish :: "lexer \<Rightarrow> token list" where
  "finish l =
     (let l1 = flush_dedents l
      in tokens (push_token (mk_token EOF NoValue (line l1) (col l1)) l1))"

definition Lexer_tokenize :: "string \<Rightarrow> syntax_error + token list" where
  "Lexer_tokenize source =
     (case Lexer_loop (new_lexer source) of Inl e \<Rightarrow> Inl e | Inr l \<Rightarrow> Inr (finish l))"

definition MiniLexer_tokenize :: "string \<Rightarrow> syntax_error + token list" where
  "MiniLexer_tokenize source =
     (case MiniLexer_loop (new_lexer source) of Inl e \<Rightarrow> Inl e | Inr l \<Rightarrow> Inr (finish l))"


section \<open>Syntax trees\<close>

text \<open>
  The nodes are plain objects tagged by \<^verbatim>\<open>type\<close>; one datatype holds the node kinds of
  both \<^verbatim>\<open>NodeType\<close> tables. The last field of a statement node is its \<^verbatim>\<open>line\<close>.
  \<open>IfNode\<close> is the script parser's \<^verbatim>\<open>If\<close> node (condition, body), \<open>IfStatement\<close> the
  mini-game's (condition, body, elif clauses, else body or \<^verbatim>\<open>null\<close>).
\<close>

datatype node =
  Program "node list"
  | Sequence "node list"
  | Call string "node list" nat
  | Repeat int "node list" nat
  | IfNode node "node list" nat
  | ForLoop string rat "node list" nat
  | WhileLoop node "node list" nat
  | IfStatement node "node list" "(node \<times> node list) list" "node list option" nat
  | Number rat
  | String string
  | Identifier string

section \<open>The parsers\<close>

text \<open>
  A parser object is the token array and a cursor that only moves forward (the one
  \<^verbatim>\<open>this.pos--\<close> undoes the \<^verbatim>\<open>advance()\<close> just before it); the model passes the tokens
  from the cursor on. Beyond the end \<^verbatim>\<open>peek()\<close> yields \<^verbatim>\<open>{ type: EOF }\<close>, a token with no
  line or column, written with line and column 0 (lines and columns start at 1).

  The main loop of \<^verbatim>\<open>parse()\<close> need not terminate, so the parsing functions take fuel:
  every call of a parsing function costs one unit, and \<open>None\<close> is the result of a run that
  has not returned within its fuel. \<open>Some (Inl e)\<close> is a thrown \<^verbatim>\<open>SyntaxError\<close>,
  \<open>Some (Inr (x, ts))\<close> a returned value with the tokens left.
\<close>

type_synonym 'a parsed = "(syntax_error + 'a \<times> token list) option"

definition eof_token :: token where
  "eof_token = mk_token EOF NoValue 0 0"

definition peek_token :: "token list \<Rightarrow> token" where
  "peek_token ts = (case ts of [] \<Rightarrow> eof_token | t # others \<Rightarrow> t)"

definition peek_type :: "token list \<Rightarrow> token_type" where
  "peek_type ts = ttype (peek_token ts)"

definition str_of :: "tok_value \<Rightarrow> string" where
  "str_of v = (case v of StrValue s \<Rightarrow> s | _ \<Rightarrow> [])"

definition num_of :: "tok_value \<Rightarrow> rat" where
  "num_of v = (case v of NumValue r \<Rightarrow> r | _ \<Rightarrow> 0)"

definition ok :: "'a \<Rightarrow> token list \<Rightarrow> 'a parsed" where
  "ok x ts = Some (Inr (x, ts))"

definition throw :: "syntax_error \<Rightarrow> 'a parsed" where
  "throw e = Some (Inl e)"

definition bind_parsed :: "'a parsed \<Rightarrow> ('a \<Rightarrow> token list \<Rightarrow> 'b parsed) \<Rightarrow> 'b parsed" where
  "bind_parsed r f =
     (case r of
        None \<Rightarrow> None
      | Some (Inl e) \<Rightarrow> Some (Inl e)
      | Some (Inr (x, ts)) \<Rightarrow> f x ts)"

definition expect :: "token_type \<Rightarrow> string \<Rightarrow> token list \<Rightarrow> token parsed" where
  "expect ty errorMsg ts =
     (let token = peek_token ts
      in if ttype token \<noteq> ty then throw (Expected errorMsg token) else ok token (tl ts))"

text \<open>\<^verbatim>\<open>skipNewlines()\<close>, and the \<^verbatim>\<open>if (stmt) statements.push(stmt)\<close> of the loops.\<close>

fun skipNewlines :: "token list \<Rightarrow> token list" where
  "skipNewlines [] = []"
| "skipNewlines (t # ts) = (if ttype t = NEWLINE then skipNewlines ts else t # ts)"

definition pushed :: "node list \<Rightarrow> node option \<Rightarrow> node list" where
  "pushed statements stmt = (case stmt of None \<Rightarrow> statements | Some s \<Rightarrow> statements @ [s])"

subsection \<open>The script parser\<close>

text \<open>
  \<^verbatim>\<open>parseRepeat\<close> and \<^verbatim>\<open>parseIf\<close> are entered with their keyword at the cursor and take
  it with \<^verbatim>\<open>advance()\<close>. The two loops of \<^verbatim>\<open>parseCallOrSequence\<close> and \<^verbatim>\<open>parseCall\<close> and the
  loop of \<^verbatim>\<open>parseBlock\<close> are functions of their own.
\<close>

function Parser_parseStatement :: "nat \<Rightarrow> token list \<Rightarrow> node option parsed"
  and Parser_parseCallOrSequence :: "nat \<Rightarrow> token list \<Rightarrow> node parsed"
  and Parser_sequence_loop :: "nat \<Rightarrow> node list \<Rightarrow> token list \<Rightarrow> node list parsed"
  and Parser_parseCall :: "nat \<Rightarrow> token list \<Rightarrow> node parsed"
  and Parser_arguments_loop :: "nat \<Rightarrow> node list \<Rightarrow> token list \<Rightarrow> node list parsed"
  and Parser_parseArgument :: "nat \<Rightarrow> token list \<Rightarrow> node parsed"
  and Parser_parseRepeat :: "nat \<Rightarrow> token list \<Rightarrow> node parsed"
  and Parser_parseIf :: "nat \<Rightarrow> token list \<Rightarrow> node parsed"
  and Parser_parseCondition :: "nat \<Rightarrow> token list \<Rightarrow> node parsed"
  and Parser_parseBlock :: "nat \<Rightarrow> token list \<Rightarrow> node list parsed"
  and Parser_block_loop :: "nat \<Rightarrow> node list \<Rightarrow> token list \<Rightarrow> node list parsed"
where
  "Parser_parseStatement 0 ts = None"
| "Parser_parseStatement (Suc n) ts =
     (if peek_type ts = REPEAT
      then bind_parsed (Parser_parseRepeat n ts) (\<lambda>stmt ts1. ok (Some stmt) ts1)
      else if peek_type ts = IF
      then bind_parsed (Parser_parseIf n ts) (\<lambda>stmt ts1. ok (Some stmt) ts1)
      else if peek_type ts = IDENTIFIER
      then bind_parsed (Parser_parseCallOrSequence n ts) (\<lambda>stmt ts1. ok (Some stmt) ts1)
      else if peek_type ts \<noteq> EOF \<and> peek_type ts \<noteq> NEWLINE \<and> peek_type ts \<noteq> DEDENT
      then ok None (tl ts)
      else ok None ts)"
| "Parser_parseCallOrSequence 0 ts = None"
| "Parser_parseCallOrSequence (Suc n) ts =
     bind_parsed (Parser_parseCall n ts) (\<lambda>call ts1.
     bind_parsed (Parser_sequence_loop n [call] ts1) (\<lambda>calls ts2.
       case calls of [single] \<Rightarrow> ok single ts2 | _ \<Rightarrow> ok (Sequence calls) ts2))"
| "Parser_sequence_loop 0 calls ts = None"
| "Parser_sequence_loop (Suc n) calls ts =
     (if peek_type ts = COMMA
      then (let ts1 = skipNewlines (tl ts)
            in if peek_type ts1 = IDENTIFIER \<or> peek_type ts1 = REPEAT \<or> peek_type ts1 = IF
               then bind_parsed (Parser_parseStatement n ts1) (\<lambda>stmt ts2.
                      Parser_sequence_loop n (pushed calls stmt) ts2)
               else Parser_sequence_loop n calls ts1)
      else ok calls ts)"
| "Parser_parseCall 0 ts = None"
| "Parser_parseCall (Suc n) ts =
     bind_parsed (expect IDENTIFIER ''Expected function name'' ts) (\<lambda>nameToken ts1.
     bind_parsed (expect LPAREN ''Expected \"(\" after function name'' ts1) (\<lambda>lparen ts2.
     bind_parsed
       (if peek_type ts2 \<noteq> RPAREN
        then bind_parsed (Parser_parseArgument n ts2) (\<lambda>arg ts3.
               Parser_arguments_loop n [arg] ts3)
        else ok [] ts2) (\<lambda>args ts4.
     bind_parsed (expect RPAREN ''Expected \")\"'' ts4) (\<lambda>rparen ts5.
       ok (Call (str_of (tvalue nameToken)) args (tline nameToken)) ts5))))"
| "Parser_arguments_loop 0 args ts = None"
| "Parser_arguments_loop (Suc n) args ts =
     (if peek_type ts = COMMA
      then bind_parsed (Parser_parseArgument n (tl ts)) (\<lambda>arg ts1.
             Parser_arguments_loop n (args @ [arg]) ts1)
      else ok args ts)"
| "Parser_parseArgument 0 ts = None"
| "Parser_parseArgument (Suc n) ts =
     (let token = peek_token ts
      in if ttype token = NUMBER then ok (Number (num_of (tvalue token))) (tl ts)
         else if ttype token = STRING then ok (String (str_of (tvalue token))) (tl ts)
         else if ttype token = IDENTIFIER
         then (if peek_type (tl ts) = LPAREN then Parser_parseCall n ts
               else ok (Identifier (str_of (tvalue token))) (tl ts))
         else throw (UnexpectedToken token))"
| "Parser_parseRepeat 0 ts = None"
| "Parser_parseRepeat (Suc n) ts =
     (let repeatToken = peek_token ts
      in bind_parsed (expect LPAREN ''Expected \"(\" after repeat'' (tl ts)) (\<lambda>lparen ts1.
         bind_parsed (expect NUMBER ''Expected number in repeat'' ts1) (\<lambda>countToken ts2.
         bind_parsed (expect RPAREN ''Expected \")\"'' ts2) (\<lambda>rparen ts3.
         bind_parsed (expect COLON ''Expected \":\" after repeat(n)'' ts3) (\<lambda>colon ts4.
           let ts5 = skipNewlines ts4
           in if peek_type ts5 \<noteq> INDENT
              then throw (ExpectedBlock ''repeat'' (tline repeatToken))
              else bind_parsed (Parser_parseBlock n (tl ts5)) (\<lambda>body ts6.
                     ok (Repeat (floor (num_of (tvalue countToken))) body (tline repeatToken))
                       ts6))))))"
| "Parser_parseIf 0 ts = None"
| "Parser_parseIf (Suc n) ts =
     (let ifToken = peek_token ts
      in bind_parsed (Parser_parseCondition n (tl ts)) (\<lambda>condition ts1.
         bind_parsed (expect COLON ''Expected \":\" after if condition'' ts1) (\<lambda>colon ts2.
           let ts3 = skipNewlines ts2
           in if peek_type ts3 \<noteq> INDENT
              then throw (ExpectedBlock ''if'' (tline ifToken))
              else bind_parsed (Parser_parseBlock n (tl ts3)) (\<lambda>body ts4.
                     ok (IfNode condition body (tline ifToken)) ts4))))"
| "Parser_parseCondition 0 ts = None"
| "Parser_parseCondition (Suc n) ts =
     (let token = peek_token ts
      in if ttype token = IDENTIFIER
         then (if peek_type (tl ts) = LPAREN then Parser_parseCall n ts
               else ok (Identifier (str_of (tvalue token))) (tl ts))
         else throw (ExpectedCondition (tline token)))"
| "Parser_parseBlock 0 ts = None"
| "Parser_parseBlock (Suc n) ts = Parser_block_loop n [] (skipNewlines ts)"
| "Parser_block_loop 0 statements ts = None"
| "Parser_block_loop (Suc n) statements ts =
     (if peek_type ts \<noteq> DEDENT \<and> peek_type ts \<noteq> EOF
      then bind_parsed (Parser_parseStatement n ts) (\<lambda>stmt ts1.
             Parser_block_loop n (pushed statements stmt) (skipNewlines ts1))
      else ok statements (if peek_type ts = DEDENT then tl ts else ts))"

  by pat_completeness auto
termination
  by (relation "measure (case_sum
        (case_sum (case_sum fst fst) (case_sum fst (case_sum fst fst)))
        (case_sum (case_sum fst (case_sum fst fst)) (case_sum fst (case_sum fst fst))))")
    auto

fun Parser_parse_loop :: "nat \<Rightarrow> node list \<Rightarrow> token list \<Rightarrow> (syntax_error + node) option" where
  "Parser_parse_loop 0 statements ts = None"
| "Parser_parse_loop (Suc n) statements ts =
     (if peek_type ts \<noteq> EOF
      then (case Parser_parseStatement n ts of
              None \<Rightarrow> None
            | Some (Inl e) \<Rightarrow> Some (Inl e)
            | Some (Inr (stmt, ts1)) \<Rightarrow>
                Parser_parse_loop n (pushed statements stmt) (skipNewlines ts1))
      else Some (Inr (Program statements)))"

definition Parser_parse :: "nat \<Rightarrow> token list \<Rightarrow> (syntax_error + node) option" where
  "Parser_parse n ts = Parser_parse_loop n [] (skipNewlines ts)"

definition parseScript :: "nat \<Rightarrow> string \<Rightarrow> (syntax_error + node) option" where
  "parseScript n source =
     (case Lexer_tokenize source of Inl e \<Rightarrow> Some (Inl e) | Inr ts \<Rightarrow> Parser_parse n ts)"


subsection \<open>The mini-game parser\<close>

definition MiniParser_parseArgument :: "token list \<Rightarrow> node parsed" where
  "MiniParser_parseArgument ts =
     (let token = peek_token ts
      in if ttype token = NUMBER then ok (Number (num_of (tvalue token))) (tl ts)
         else if ttype token = IDENTIFIER then ok (Identifier (str_of (tvalue token))) (tl ts)
         else throw (UnexpectedToken token))"

fun MiniParser_arguments_loop :: "nat \<Rightarrow> node list \<Rightarrow> token list \<Rightarrow> node list parsed" where
  "MiniParser_arguments_loop 0 args ts = None"
| "MiniParser_arguments_loop (Suc n) args ts =
     (if peek_type ts = COMMA
      then bind_parsed (MiniParser_parseArgument (tl ts)) (\<lambda>arg ts1.
             MiniParser_arguments_loop n (args @ [arg]) ts1)
      else ok args ts)"

definition MiniParser_parseCallWithParens :: "nat \<Rightarrow> string \<Rightarrow> nat \<Rightarrow> token list \<Rightarrow> node parsed" where
  "MiniParser_parseCallWithParens n name li ts =
     bind_parsed (expect LPAREN ''Expected \"(\" after function name'' ts) (\<lambda>lparen ts1.
     bind_parsed
       (if peek_type ts1 \<noteq> RPAREN
        then bind_parsed (MiniParser_parseArgument ts1) (\<lambda>arg ts2.
               MiniParser_arguments_loop n [arg] ts2)
        else ok [] ts1) (\<lambda>args ts3.
     bind_parsed (expect RPAREN ''Expected \")\"'' ts3) (\<lambda>rparen ts4.
       ok (Call name args li) ts4)))"

definition MiniParser_parseCondition :: "nat \<Rightarrow> token list \<Rightarrow> node parsed" where
  "MiniParser_parseCondition n ts =
     (let token = peek_token ts
      in if ttype token = IDENTIFIER
         then (if peek_type (tl ts) = LPAREN
               then MiniParser_parseCallWithParens n (str_of (tvalue token)) (tline token) (tl ts)
               else ok (Identifier (str_of (tvalue token))) (tl ts))
         else throw (ExpectedCondition (tline token)))"

definition MiniParser_parseCall :: "nat \<Rightarrow> token list \<Rightarrow> node parsed" where
  "MiniParser_parseCall n ts =
     (let nameToken = peek_token ts; name = str_of (tvalue nameToken)
      in if peek_type (tl ts) = LPAREN
         then MiniParser_parseCallWithParens n name (tline nameToken) (tl ts)
         else ok (Call name [] (tline nameToken)) (tl ts))"

function MiniParser_parseStatement :: "nat \<Rightarrow> token list \<Rightarrow> node option parsed"
  and MiniParser_parseForLoop :: "nat \<Rightarrow> token list \<Rightarrow> node parsed"
  and MiniParser_parseWhileLoop :: "nat \<Rightarrow> token list \<Rightarrow> node parsed"
  and MiniParser_parseIfStatement :: "nat \<Rightarrow> token list \<Rightarrow> node parsed"
  and MiniParser_elif_loop ::
    "nat \<Rightarrow> (node \<times> node list) list \<Rightarrow> token list \<Rightarrow> (node \<times> node list) list parsed"
  and MiniParser_parseBlock :: "nat \<Rightarrow> token list \<Rightarrow> node list parsed"
  and MiniParser_block_loop :: "nat \<Rightarrow> node list \<Rightarrow> token list \<Rightarrow> node list parsed"
where
  "MiniParser_parseStatement 0 ts = None"
| "MiniParser_parseStatement (Suc n) ts =
     (if peek_type ts = FOR
      then bind_parsed (MiniParser_parseForLoop n ts) (\<lambda>stmt ts1. ok (Some stmt) ts1)
      else if peek_type ts = WHILE
      then bind_parsed (MiniParser_parseWhileLoop n ts) (\<lambda>stmt ts1. ok (Some stmt) ts1)
      else if peek_type ts = IF
      then bind_parsed (MiniParser_parseIfStatement n ts) (\<lambda>stmt ts1. ok (Some stmt) ts1)
      else if peek_type ts = IDENTIFIER
      then bind_parsed (MiniParser_parseCall n ts) (\<lambda>stmt ts1. ok (Some stmt) ts1)
      else if peek_type ts \<noteq> EOF \<and> peek_type ts \<noteq> NEWLINE \<and> peek_type ts \<noteq> DEDENT
      then ok None (tl ts)
      else ok None ts)"
| "MiniParser_parseForLoop 0 ts = None"
| "MiniParser_parseForLoop (Suc n) ts =
     (let forToken = peek_token ts
      in bind_parsed (expect IDENTIFIER ''Expected variable name after \"for\"'' (tl ts))
           (\<lambda>varToken ts1.
         bind_parsed (expect IN ''Expected \"in\" after loop variable'' ts1) (\<lambda>inToken ts2.
         bind_parsed (expect RANGE ''Expected \"range\" after \"in\"'' ts2) (\<lambda>rangeToken ts3.
         bind_parsed (expect LPAREN ''Expected \"(\" after \"range\"'' ts3) (\<lambda>lparen ts4.
         bind_parsed (expect NUMBER ''Expected number in range()'' ts4) (\<lambda>countToken ts5.
         bind_parsed (expect RPAREN ''Expected \")\" after range argument'' ts5) (\<lambda>rparen ts6.
         bind_parsed (expect COLON ''Expected \":\" after for statement'' ts6) (\<lambda>colon ts7.
           let ts8 = skipNewlines ts7
           in if peek_type ts8 \<noteq> INDENT
              then throw (ExpectedBlock ''for loop'' (tline forToken))
              else bind_parsed (MiniParser_parseBlock n (tl ts8)) (\<lambda>body ts9.
                     ok (ForLoop (str_of (tvalue varToken)) (num_of (tvalue countToken)) body
                           (tline forToken)) ts9)))))))))"
| "MiniParser_parseWhileLoop 0 ts = None"
| "MiniParser_parseWhileLoop (Suc n) ts =
     (let whileToken = peek_token ts
      in bind_parsed (MiniParser_parseCondition n (tl ts)) (\<lambda>condition ts1.
         bind_parsed (expect COLON ''Expected \":\" after while condition'' ts1) (\<lambda>colon ts2.
           let ts3 = skipNewlines ts2
           in if peek_type ts3 \<noteq> INDENT
              then throw (ExpectedBlock ''while loop'' (tline whileToken))
              else bind_parsed (MiniParser_parseBlock n (tl ts3)) (\<lambda>body ts4.
                     ok (WhileLoop condition body (tline whileToken)) ts4))))"
| "MiniParser_parseIfStatement 0 ts = None"
| "MiniParser_parseIfStatement (Suc n) ts =
     (let ifToken = peek_token ts
      in bind_parsed (MiniParser_parseCondition n (tl ts)) (\<lambda>condition ts1.
         bind_parsed (expect COLON ''Expected \":\" after if condition'' ts1) (\<lambda>colon ts2.
           let ts3 = skipNewlines ts2
           in if peek_type ts3 \<noteq> INDENT
              then throw (ExpectedBlock ''if'' (tline ifToken))
              else bind_parsed (MiniParser_parseBlock n (tl ts3)) (\<lambda>body ts4.
                   bind_parsed (MiniParser_elif_loop n [] (skipNewlines ts4)) (\<lambda>elifClauses ts5.
                     if peek_type ts5 = ELSE
                     then bind_parsed (expect COLON ''Expected \":\" after else'' (tl ts5))
                            (\<lambda>colon2 ts6.
                            let ts7 = skipNewlines ts6
                            in if peek_type ts7 \<noteq> INDENT
                               then throw (ExpectedBlock ''else'' (tline (peek_token ts7)))
                               else bind_parsed (MiniParser_parseBlock n (tl ts7))
                                      (\<lambda>elseBody ts8.
                                      ok (IfStatement condition body elifClauses (Some elseBody)
                                            (tline ifToken)) ts8))
                     else ok (IfStatement condition body elifClauses None (tline ifToken))
                            ts5)))))"
| "MiniParser_elif_loop 0 elifClauses ts = None"
| "MiniParser_elif_loop (Suc n) elifClauses ts =
     (if peek_type ts = ELIF
      then bind_parsed (MiniParser_parseCondition n (tl ts)) (\<lambda>elifCondition ts1.
           bind_parsed (expect COLON ''Expected \":\" after elif condition'' ts1) (\<lambda>colon ts2.
             let ts3 = skipNewlines ts2
             in if peek_type ts3 \<noteq> INDENT
                then throw (ExpectedBlock ''elif'' (tline (peek_token ts3)))
                else bind_parsed (MiniParser_parseBlock n (tl ts3)) (\<lambda>elifBody ts4.
                       MiniParser_elif_loop n (elifClauses @ [(elifCondition, elifBody)])
                         (skipNewlines ts4))))
      else ok elifClauses ts)"
| "MiniParser_parseBlock 0 ts = None"
| "MiniParser_parseBlock (Suc n) ts = MiniParser_block_loop n [] ts"
| "MiniParser_block_loop 0 statements ts = None"
| "MiniParser_block_loop (Suc n) statements ts =
     (if peek_type ts \<noteq> DEDENT \<and> peek_type ts \<noteq> EOF
      then bind_parsed (MiniParser_parseStatement n ts) (\<lambda>stmt ts1.
             MiniParser_block_loop n (pushed statements stmt) (skipNewlines ts1))
      else ok statements (if peek_type ts = DEDENT then tl ts else ts))"
  by pat_completeness auto
termination
  by (relation "measure (case_sum
        (case_sum fst (case_sum fst fst))
        (case_sum (case_sum fst fst) (case_sum fst fst)))")
    auto

fun MiniParser_parse_loop :: "nat \<Rightarrow> node list \<Rightarrow> token list \<Rightarrow> (syntax_error + node) option" where
  "MiniParser_parse_loop 0 statements ts = None"
| "MiniParser_parse_loop (Suc n) statements ts =
     (if peek_type ts \<noteq> EOF
      then (case MiniParser_parseStatement n ts of
              None \<Rightarrow> None
            | Some (Inl e) \<Rightarrow> Some (Inl e)
            | Some (Inr (stmt, ts1)) \<Rightarrow>
                MiniParser_parse_loop n (pushed statements stmt) (skipNewlines ts1))
      else Some (Inr (Program statements)))"

definition MiniParser_parse :: "nat \<Rightarrow> token list \<Rightarrow> (syntax_error + node) option" where
  "MiniParser_parse n ts = MiniParser_parse_loop n [] (skipNewlines ts)"

definition mini_parse_source :: "nat \<Rightarrow> string \<Rightarrow> (syntax_error + node) option" where
  "mini_parse_source n source =
     (case MiniLexer_tokenize source of Inl e \<Rightarrow> Some (Inl e) | Inr ts \<Rightarrow> MiniParser_parse n ts)"

section \<open>The executors\<close>

text \<open>
  The executors walk the tree and call host commands. A host command is a function of
  the evaluated arguments and the host's state; it returns a value or throws an
  \<^verbatim>\<open>Error\<close> with a message, and leaves a new host state either way. The command table maps
  a name to what \<^verbatim>\<open>this.commands[name]\<close> yields, \<open>None\<close> where that is falsy. The read
  goes through the prototype chain of the table, so the names that yield \<open>None\<close> are those
  that are neither members of the table itself nor inherited by it; the table is the same
  throughout a run.

  What an execution does to the outside is kept as a trace: the messages given to the
  output sink with their channel, the invocations of host commands with their arguments,
  and the pacing delays (\<^verbatim>\<open>await this.delay(ms)\<close>) in milliseconds. The messages are
  \<^item> \<open>NameError name\<close>: \<^verbatim>\<open>NameError: '${name}' is not defined\<close>
  \<^item> \<open>HelpHint\<close>: \<^verbatim>\<open>Type help() to see available commands\<close>
  \<^item> \<open>ErrorMessage m\<close>: \<^verbatim>\<open>Error: ${e.message}\<close>
  \<^item> \<open>Repeating n\<close>: \<^verbatim>\<open>Repeating ${count} times...\<close>
  \<^item> \<open>ConditionTrue\<close>: \<^verbatim>\<open>Condition is true, executing block\<close>
  \<^item> \<open>ConditionFalse\<close>: \<^verbatim>\<open>Condition is false, skipping block\<close>

  The exceptions that leave an executor are
  \<^item> \<open>UnknownNodeType node\<close>: \<^verbatim>\<open>Unknown node type: ${node.type}\<close>
  \<^item> \<open>CommandFailed m\<close>: the \<^verbatim>\<open>Error\<close> with message \<open>m\<close> thrown by a host command
  \<^item> \<open>UnknownCommand name\<close>: \<^verbatim>\<open>Unknown command: ${name}\<close>
  \<^item> \<open>LoopExceeded n\<close>: \<^verbatim>\<open>Loop exceeded maximum iterations (${n})\<close>

  The flag \<open>stopped\<close> belongs to the mini-game executor; the script executor has none and
  never reads it.
\<close>

datatype js_value = VNumber rat | VString string | VBool bool | VUndefined

definition truthy :: "js_value \<Rightarrow> bool" where
  "truthy v = (case v of VNumber r \<Rightarrow> r \<noteq> 0 | VString s \<Rightarrow> s \<noteq> [] | VBool b \<Rightarrow> b
     | VUndefined \<Rightarrow> False)"

datatype message =
  NameError string
  | HelpHint
  | ErrorMessage string
  | Repeating int
  | ConditionTrue
  | ConditionFalse

datatype event = Print message string | Invoke string "js_value list" | Delay nat

datatype exec_error =
  UnknownNodeType node
  | CommandFailed string
  | UnknownCommand string
  | LoopExceeded int

record 'h world =
  host :: 'h
  trace :: "event list"
  stopped :: bool

type_synonym 'h command = "js_value list \<Rightarrow> 'h \<Rightarrow> (string + js_value) \<times> 'h"
type_synonym 'h commands = "string \<Rightarrow> 'h command option"
type_synonym ('h, 'a) outcome = "(exec_error + 'a) \<times> 'h world"

definition print :: "message \<Rightarrow> string \<Rightarrow> 'h world \<Rightarrow> 'h world" where
  "print m channel w = w\<lparr>trace := trace w @ [Print m channel]\<rparr>"

definition delay :: "nat \<Rightarrow> 'h world \<Rightarrow> 'h world" where
  "delay ms w = w\<lparr>trace := trace w @ [Delay ms]\<rparr>"

definition executionDelay :: nat where
  "executionDelay = 200"

definition invoke :: "string \<Rightarrow> 'h command \<Rightarrow> js_value list \<Rightarrow> 'h world \<Rightarrow> (string + js_value) \<times> 'h world" where
  "invoke name f vs w =
     (let (r, h) = f vs (host w)
      in (r, w\<lparr>host := h, trace := trace w @ [Invoke name vs]\<rparr>))"

definition identifier_value :: "string \<Rightarrow> js_value" where
  "identifier_value name =
     (if name = ''True'' \<or> name = ''true'' then VBool True
      else if name = ''False'' \<or> name = ''false'' then VBool False
      else VString name)"

subsection \<open>The script executor\<close>

text \<open>
  \<^verbatim>\<open>executeCallSync\<close> and \<^verbatim>\<open>executeCall\<close> take the two fields of the \<^verbatim>\<open>Call\<close> node they
  are applied to. \<^verbatim>\<open>args.map(arg => this.evaluateArgument(arg))\<close> evaluates from left to
  right and stops at the first exception.
\<close>

fun Executor_evaluateArgument :: "'h commands \<Rightarrow> node \<Rightarrow> 'h world \<Rightarrow> ('h, js_value) outcome"
  and Executor_executeCallSync ::
    "'h commands \<Rightarrow> string \<Rightarrow> node list \<Rightarrow> 'h world \<Rightarrow> ('h, js_value) outcome"
  and Executor_evaluate_arguments ::
    "'h commands \<Rightarrow> node list \<Rightarrow> 'h world \<Rightarrow> ('h, js_value list) outcome"
where
  "Executor_evaluateArgument cmds (Number v) w = (Inr (VNumber v), w)"
| "Executor_evaluateArgument cmds (String s) w = (Inr (VString s), w)"
| "Executor_evaluateArgument cmds (Identifier name) w = (Inr (identifier_value name), w)"
| "Executor_evaluateArgument cmds (Call name args li) w = Executor_executeCallSync cmds name args w"
| "Executor_evaluateArgument cmds other w = (Inr VUndefined, w)"
| "Executor_executeCallSync cmds name args w =
     (case cmds name of
        None \<Rightarrow> (Inr VUndefined, w)
      | Some f \<Rightarrow>
          (case Executor_evaluate_arguments cmds args w of
             (Inl e, w1) \<Rightarrow> (Inl e, w1)
           | (Inr evaluatedArgs, w1) \<Rightarrow>
               (case invoke name f evaluatedArgs w1 of
                  (Inl msg, w2) \<Rightarrow> (Inl (CommandFailed msg), w2)
                | (Inr v, w2) \<Rightarrow> (Inr v, w2))))"
| "Executor_evaluate_arguments cmds [] w = (Inr [], w)"
| "Executor_evaluate_arguments cmds (arg # args) w =
     (case Executor_evaluateArgument cmds arg w of
        (Inl e, w1) \<Rightarrow> (Inl e, w1)
      | (Inr v, w1) \<Rightarrow>
          (case Executor_evaluate_arguments cmds args w1 of
             (Inl e, w2) \<Rightarrow> (Inl e, w2)
           | (Inr vs, w2) \<Rightarrow> (Inr (v # vs), w2)))"


text \<open>
  At statement position an unknown name is reported and yields \<^verbatim>\<open>undefined\<close>; an
  exception of the command itself is caught and reported. The arguments are evaluated
  outside the \<^verbatim>\<open>try\<close>.
\<close>

definition Executor_executeCall ::
  "'h commands \<Rightarrow> string \<Rightarrow> node list \<Rightarrow> 'h world \<Rightarrow> ('h, js_value) outcome" where
  "Executor_executeCall cmds name args w =
     (case cmds name of
        None \<Rightarrow> (Inr VUndefined, print HelpHint ''system'' (print (NameError name) ''error'' w))
      | Some f \<Rightarrow>
          (case Executor_evaluate_arguments cmds args w of
             (Inl e, w1) \<Rightarrow> (Inl e, w1)
           | (Inr evaluatedArgs, w1) \<Rightarrow>
               (case invoke name f evaluatedArgs w1 of
                  (Inl msg, w2) \<Rightarrow> (Inr VUndefined, print (ErrorMessage msg) ''error'' w2)
                | (Inr v, w2) \<Rightarrow> (Inr v, w2))))"

definition Executor_condition :: "'h commands \<Rightarrow> node \<Rightarrow> 'h world \<Rightarrow> ('h, js_value) outcome" where
  "Executor_condition cmds condition w =
     (case condition of
        Call name args li \<Rightarrow> Executor_executeCallSync cmds name args w
      | Identifier name \<Rightarrow> Executor_evaluateArgument cmds condition w
      | _ \<Rightarrow> (Inr VUndefined, w))"

text \<open>
  The bodies of \<^verbatim>\<open>Sequence\<close>, \<^verbatim>\<open>Repeat\<close> and \<^verbatim>\<open>If\<close> run each statement followed by a
  delay. \<^verbatim>\<open>for (let i = 0; i < count; i++)\<close> runs \<open>nat count\<close> rounds.
\<close>

fun Executor_executeStatement :: "'h commands \<Rightarrow> node \<Rightarrow> 'h world \<Rightarrow> ('h, js_value) outcome"
  and Executor_paced :: "'h commands \<Rightarrow> node list \<Rightarrow> 'h world \<Rightarrow> ('h, unit) outcome"
  and Executor_repeat_loop :: "'h commands \<Rightarrow> nat \<Rightarrow> node list \<Rightarrow> 'h world \<Rightarrow> ('h, unit) outcome"
where
  "Executor_executeStatement cmds (Call name args li) w = Executor_executeCall cmds name args w"
| "Executor_executeStatement cmds (Sequence statements) w =
     (case Executor_paced cmds statements w of
        (Inl e, w1) \<Rightarrow> (Inl e, w1)
      | (Inr u, w1) \<Rightarrow> (Inr VUndefined, w1))"
| "Executor_executeStatement cmds (Repeat count body li) w =
     (case Executor_repeat_loop cmds (nat count) body (print (Repeating count) ''info'' w) of
        (Inl e, w1) \<Rightarrow> (Inl e, w1)
      | (Inr u, w1) \<Rightarrow> (Inr VUndefined, w1))"
| "Executor_executeStatement cmds (IfNode condition body li) w =
     (case Executor_condition cmds condition w of
        (Inl e, w1) \<Rightarrow> (Inl e, w1)
      | (Inr conditionResult, w1) \<Rightarrow>
          if truthy conditionResult
          then (case Executor_paced cmds body (print ConditionTrue ''info'' w1) of
                  (Inl e, w2) \<Rightarrow> (Inl e, w2)
                | (Inr u, w2) \<Rightarrow> (Inr VUndefined, w2))
          else (Inr VUndefined, print ConditionFalse ''info'' w1))"
| "Executor_executeStatement cmds other w = (Inl (UnknownNodeType other), w)"
| "Executor_paced cmds [] w = (Inr (), w)"
| "Executor_paced cmds (stmt # statements) w =
     (case Executor_executeStatement cmds stmt w of
        (Inl e, w1) \<Rightarrow> (Inl e, w1)
      | (Inr v, w1) \<Rightarrow> Executor_paced cmds statements (delay executionDelay w1))"
| "Executor_repeat_loop cmds 0 body w = (Inr (), w)"
| "Executor_repeat_loop cmds (Suc k) body w =
     (case Executor_paced cmds body w of
        (Inl e, w1) \<Rightarrow> (Inl e, w1)
      | (Inr u, w1) \<Rightarrow> Executor_repeat_loop cmds k body w1)"

fun Executor_body :: "'h commands \<Rightarrow> node list \<Rightarrow> 'h world \<Rightarrow> ('h, unit) outcome" where
  "Executor_body cmds [] w = (Inr (), w)"
| "Executor_body cmds (stmt # statements) w =
     (case Executor_executeStatement cmds stmt w of
        (Inl e, w1) \<Rightarrow> (Inl e, w1)
      | (Inr v, w1) \<Rightarrow> Executor_body cmds statements w1)"

definition Executor_execute :: "'h commands \<Rightarrow> node \<Rightarrow> 'h world \<Rightarrow> ('h, unit) outcome" where
  "Executor_execute cmds ast w =
     (case ast of Program body \<Rightarrow> Executor_body cmds body w | _ \<Rightarrow> (Inr (), w))"


subsection \<open>The mini-game executor\<close>

fun MiniExecutor_evaluateArgument :: "'h commands \<Rightarrow> node \<Rightarrow> 'h world \<Rightarrow> ('h, js_value) outcome"
  and MiniExecutor_executeCallSync ::
    "'h commands \<Rightarrow> string \<Rightarrow> node list \<Rightarrow> 'h world \<Rightarrow> ('h, js_value) outcome"
  and MiniExecutor_evaluate_arguments ::
    "'h commands \<Rightarrow> node list \<Rightarrow> 'h world \<Rightarrow> ('h, js_value list) outcome"
where
  "MiniExecutor_evaluateArgument cmds (Number v) w = (Inr (VNumber v), w)"
| "MiniExecutor_evaluateArgument cmds (Identifier name) w = (Inr (identifier_value name), w)"
| "MiniExecutor_evaluateArgument cmds (Call name args li) w =
     MiniExecutor_executeCallSync cmds name args w"
| "MiniExecutor_evaluateArgument cmds other w = (Inr VUndefined, w)"
| "MiniExecutor_executeCallSync cmds name args w =
     (case cmds name of
        None \<Rightarrow> (Inl (UnknownCommand name), w)
      | Some f \<Rightarrow>
          (case MiniExecutor_evaluate_arguments cmds args w of
             (Inl e, w1) \<Rightarrow> (Inl e, w1)
           | (Inr evaluatedArgs, w1) \<Rightarrow>
               (case invoke name f evaluatedArgs w1 of
                  (Inl msg, w2) \<Rightarrow> (Inl (CommandFailed msg), w2)
                | (Inr v, w2) \<Rightarrow> (Inr v, w2))))"
| "MiniExecutor_evaluate_arguments cmds [] w = (Inr [], w)"
| "MiniExecutor_evaluate_arguments cmds (arg # args) w =
     (case MiniExecutor_evaluateArgument cmds arg w of
        (Inl e, w1) \<Rightarrow> (Inl e, w1)
      | (Inr v, w1) \<Rightarrow>
          (case MiniExecutor_evaluate_arguments cmds args w1 of
             (Inl e, w2) \<Rightarrow> (Inl e, w2)
           | (Inr vs, w2) \<Rightarrow> (Inr (v # vs), w2)))"

definition MiniExecutor_executeCall ::
  "'h commands \<Rightarrow> string \<Rightarrow> node list \<Rightarrow> 'h world \<Rightarrow> ('h, js_value) outcome" where
  "MiniExecutor_executeCall cmds name args w =
     (case cmds name of
        None \<Rightarrow> (Inl (UnknownCommand name), w)
      | Some f \<Rightarrow>
          (case MiniExecutor_evaluate_arguments cmds args w of
             (Inl e, w1) \<Rightarrow> (Inl e, w1)
           | (Inr evaluatedArgs, w1) \<Rightarrow>
               (case invoke name f evaluatedArgs w1 of
                  (Inl msg, w2) \<Rightarrow> (Inl (CommandFailed msg), w2)
                | (Inr v, w2) \<Rightarrow> (Inr v, w2))))"

definition MiniExecutor_evaluateCondition ::
  "'h commands \<Rightarrow> node \<Rightarrow> 'h world \<Rightarrow> ('h, js_value) outcome" where
  "MiniExecutor_evaluateCondition cmds condition w =
     (case condition of
        Call name args li \<Rightarrow> MiniExecutor_executeCallSync cmds name args w
      | Identifier name \<Rightarrow> MiniExecutor_evaluateArgument cmds condition w
      | _ \<Rightarrow> (Inr (VBool False), w))"

text \<open>
  After the \<^verbatim>\<open>while\<close> loop, however it was left:
  \<^verbatim>\<open>if (iterations >= this.maxIterations) throw new Error(...)\<close>.
\<close>

definition loop_exit :: "int \<Rightarrow> nat \<Rightarrow> 'h world \<Rightarrow> ('h, js_value) outcome" where
  "loop_exit maxIterations iterations w =
     (if int iterations \<ge> maxIterations then (Inl (LoopExceeded maxIterations), w)
      else (Inr VUndefined, w))"

text \<open>
  \<^verbatim>\<open>for (let i = 0; i < count; i++)\<close> runs \<open>nat \<lceil>count\<rceil>\<close> rounds. The loop over the
  \<^verbatim>\<open>elif\<close> clauses ends with the \<^verbatim>\<open>else\<close> body.
\<close>

function MiniExecutor_executeStatement ::
    "'h commands \<Rightarrow> int \<Rightarrow> node \<Rightarrow> 'h world \<Rightarrow> ('h, js_value) outcome"
  and MiniExecutor_block :: "'h commands \<Rightarrow> int \<Rightarrow> node list \<Rightarrow> 'h world \<Rightarrow> ('h, unit) outcome"
  and MiniExecutor_for_loop ::
    "'h commands \<Rightarrow> int \<Rightarrow> nat \<Rightarrow> node list \<Rightarrow> 'h world \<Rightarrow> ('h, unit) outcome"
  and MiniExecutor_while_loop ::
    "'h commands \<Rightarrow> int \<Rightarrow> node \<Rightarrow> node list \<Rightarrow> nat \<Rightarrow> 'h world \<Rightarrow> ('h, js_value) outcome"
  and MiniExecutor_elif_loop ::
    "'h commands \<Rightarrow> int \<Rightarrow> (node \<times> node list) list \<Rightarrow> node list option \<Rightarrow> 'h world
      \<Rightarrow> ('h, unit) outcome"
where
  "MiniExecutor_executeStatement cmds maxIterations node w =
     (if stopped w then (Inr VUndefined, w)
      else (case node of
              Call name args li \<Rightarrow> MiniExecutor_executeCall cmds name args w
            | ForLoop variable count body li \<Rightarrow>
                (case MiniExecutor_for_loop cmds maxIterations (nat (ceiling count)) body w of
                   (Inl e, w1) \<Rightarrow> (Inl e, w1)
                 | (Inr u, w1) \<Rightarrow> (Inr VUndefined, w1))
            | WhileLoop condition body li \<Rightarrow>
                MiniExecutor_while_loop cmds maxIterations condition body 0 w
            | IfStatement condition body elifClauses elseBody li \<Rightarrow>
                (case MiniExecutor_evaluateCondition cmds condition w of
                   (Inl e, w1) \<Rightarrow> (Inl e, w1)
                 | (Inr v, w1) \<Rightarrow>
                     (case (if truthy v then MiniExecutor_block cmds maxIterations body w1
                            else MiniExecutor_elif_loop cmds maxIterations elifClauses elseBody w1) of
                        (Inl e, w2) \<Rightarrow> (Inl e, w2)
                      | (Inr u, w2) \<Rightarrow> (Inr VUndefined, w2)))
            | _ \<Rightarrow> (Inl (UnknownNodeType node), w)))"
| "MiniExecutor_block cmds maxIterations [] w = (Inr (), w)"
| "MiniExecutor_block cmds maxIterations (stmt # statements) w =
     (if stopped w then (Inr (), w)
      else (case MiniExecutor_executeStatement cmds maxIterations stmt w of
              (Inl e, w1) \<Rightarrow> (Inl e, w1)
            | (Inr v, w1) \<Rightarrow> MiniExecutor_block cmds maxIterations statements w1))"
| "MiniExecutor_for_loop cmds maxIterations 0 body w = (Inr (), w)"
| "MiniExecutor_for_loop cmds maxIterations (Suc k) body w =
     (if stopped w then (Inr (), w)
      else (case MiniExecutor_block cmds maxIterations body w of
              (Inl e, w1) \<Rightarrow> (Inl e, w1)
            | (Inr u, w1) \<Rightarrow> MiniExecutor_for_loop cmds maxIterations k body w1))"
| "MiniExecutor_while_loop cmds maxIterations condition body iterations w =
     (case MiniExecutor_evaluateCondition cmds condition w of
        (Inl e, w1) \<Rightarrow> (Inl e, w1)
      | (Inr v, w1) \<Rightarrow>
          if truthy v \<and> int iterations < maxIterations
          then (if stopped w1 then loop_exit maxIterations iterations w1
                else (case MiniExecutor_block cmds maxIterations body w1 of
                        (Inl e, w2) \<Rightarrow> (Inl e, w2)
                      | (Inr u, w2) \<Rightarrow>
                          MiniExecutor_while_loop cmds maxIterations condition body
                            (iterations + 1) w2))
          else loop_exit maxIterations iterations w1)"
| "MiniExecutor_elif_loop cmds maxIterations [] elseBody w =
     (case elseBody of
        None \<Rightarrow> (Inr (), w)
      | Some statements \<Rightarrow> MiniExecutor_block cmds maxIterations statements w)"
| "MiniExecutor_elif_loop cmds maxIterations ((condition, body) # elifClauses) elseBody w =
     (case MiniExecutor_evaluateCondition cmds condition w of
        (Inl e, w1) \<Rightarrow> (Inl e, w1)
      | (Inr v, w1) \<Rightarrow>
          if truthy v then MiniExecutor_block cmds maxIterations body w1
          else MiniExecutor_elif_loop cmds maxIterations elifClauses elseBody w1)"
  by pat_completeness auto
termination
  by (relation "measures
        [case_sum
           (case_sum (\<lambda>(cmds, m, node, w). size node) (\<lambda>(cmds, m, statements, w). size_list size statements))
           (case_sum (\<lambda>(cmds, m, k, body, w). size_list size body)
              (case_sum (\<lambda>(cmds, m, condition, body, iterations, w). size_list size body)
                 (\<lambda>(cmds, m, elifClauses, elseBody, w).
                    size_list (size_prod size (size_list size)) elifClauses
                    + size_option (size_list size) elseBody))),
         case_sum
           (case_sum (\<lambda>x. 0) (\<lambda>x. 0))
           (case_sum (\<lambda>(cmds, m, k, body, w). Suc k)
              (case_sum (\<lambda>(cmds, m, condition, body, iterations, w). Suc (nat (m - int iterations)))
                 (\<lambda>x. 0)))]")
    auto

declare MiniExecutor_while_loop.simps [simp del]
declare MiniExecutor_executeStatement.simps [simp del]

fun MiniExecutor_body :: "'h commands \<Rightarrow> int \<Rightarrow> node list \<Rightarrow> 'h world \<Rightarrow> ('h, unit) outcome" where
  "MiniExecutor_body cmds maxIterations [] w = (Inr (), w)"
| "MiniExecutor_body cmds maxIterations (stmt # statements) w =
     (if stopped w then (Inr (), w)
      else (case MiniExecutor_executeStatement cmds maxIterations stmt w of
              (Inl e, w1) \<Rightarrow> (Inl e, w1)
            | (Inr v, w1) \<Rightarrow> MiniExecutor_body cmds maxIterations statements w1))"

definition reset :: "'h world \<Rightarrow> 'h world" where
  "reset w = w\<lparr>stopped := False\<rparr>"

definition stop :: "'h world \<Rightarrow> 'h world" where
  "stop w = w\<lparr>stopped := True\<rparr>"

definition MiniExecutor_execute :: "'h commands \<Rightarrow> int \<Rightarrow> node \<Rightarrow> 'h world \<Rightarrow> ('h, unit) outcome" where
  "MiniExecutor_execute cmds maxIterations ast w =
     (case ast of
        Program body \<Rightarrow> MiniExecutor_body cmds maxIterations body (reset w)
      | _ \<Rightarrow> (Inr (), reset w))"

section \<open>SnakePuzzle: the grid state of the loop mini-game\<close>

text \<open>
  The class \<^verbatim>\<open>SnakePuzzle\<close> keeps the snake's cell, the goal cell and a move counter.
  Its fields are JavaScript numbers that only ever hold integers (the constructor is
  called with an integer grid size, and the methods add or subtract one), so they are
  modelled as \<^typ>\<open>int\<close>.
\<close>

record snake_puzzle =
  gridSize :: int
  snakeX :: int
  snakeY :: int
  goalX :: int
  goalY :: int
  moves :: int
  maxMoves :: int

definition new_puzzle :: "int \<Rightarrow> snake_puzzle" where
  "new_puzzle g = \<lparr>gridSize = g, snakeX = 0, snakeY = 0, goalX = g - 1, goalY = g - 1,
     moves = 0, maxMoves = 50\<rparr>"

definition isAtGoal :: "snake_puzzle \<Rightarrow> bool" where
  "isAtGoal p \<longleftrightarrow> snakeX p = goalX p \<and> snakeY p = goalY p"

definition canMoveUp :: "snake_puzzle \<Rightarrow> bool" where
  "canMoveUp p \<longleftrightarrow> snakeY p > 0"

definition canMoveDown :: "snake_puzzle \<Rightarrow> bool" where
  "canMoveDown p \<longleftrightarrow> snakeY p < gridSize p - 1"

definition canMoveLeft :: "snake_puzzle \<Rightarrow> bool" where
  "canMoveLeft p \<longleftrightarrow> snakeX p > 0"

definition canMoveRight :: "snake_puzzle \<Rightarrow> bool" where
  "canMoveRight p \<longleftrightarrow> snakeX p < gridSize p - 1"

text \<open>
  A movement either returns \<^verbatim>\<open>true\<close> or throws an \<^verbatim>\<open>Error\<close> with a fixed message.
  The result is paired with the object's state after the call, so that what a
  throwing call leaves behind is part of the model.
\<close>

definition moveUp :: "snake_puzzle \<Rightarrow> (string + bool) \<times> snake_puzzle" where
  "moveUp p =
     (if canMoveUp p
      then (Inr True, p\<lparr>snakeY := snakeY p - 1, moves := moves p + 1\<rparr>)
      else (Inl ''Cannot move up: already at the top edge!'', p))"

definition moveDown :: "snake_puzzle \<Rightarrow> (string + bool) \<times> snake_puzzle" where
  "moveDown p =
     (if canMoveDown p
      then (Inr True, p\<lparr>snakeY := snakeY p + 1, moves := moves p + 1\<rparr>)
      else (Inl ''Cannot move down: already at the bottom edge!'', p))"

definition moveLeft :: "snake_puzzle \<Rightarrow> (string + bool) \<times> snake_puzzle" where
  "moveLeft p =
     (if canMoveLeft p
      then (Inr True, p\<lparr>snakeX := snakeX p - 1, moves := moves p + 1\<rparr>)
      else (Inl ''Cannot move left: already at the left edge!'', p))"

definition moveRight :: "snake_puzzle \<Rightarrow> (string + bool) \<times> snake_puzzle" where
  "moveRight p =
     (if canMoveRight p
      then (Inr True, p\<lparr>snakeX := snakeX p + 1, moves := moves p + 1\<rparr>)
      else (Inl ''Cannot move right: already at the right edge!'', p))"

text \<open>The snake is on the grid.\<close>

definition on_grid :: "snake_puzzle \<Rightarrow> bool" where
  "on_grid p \<longleftrightarrow> 0 \<le> snakeX p \<and> snakeX p \<le> gridSize p - 1
     \<and> 0 \<le> snakeY p \<and> snakeY p \<le> gridSize p - 1"

text \<open>
  What one movement may do to the state: a step of exactly one cell along one axis with
  the counter one higher, or nothing at all together with a thrown error.
\<close>

definition one_cell :: "snake_puzzle \<Rightarrow> snake_puzzle \<Rightarrow> bool" where
  "one_cell p q \<longleftrightarrow>
     \<bar>snakeX q - snakeX p\<bar> + \<bar>snakeY q - snakeY p\<bar> = 1 \<and> moves q = moves p + 1
     \<and> gridSize q = gridSize p \<and> goalX q = goalX p \<and> goalY q = goalY p
     \<and> maxMoves q = maxMoves p"

definition atomic_move :: "snake_puzzle \<Rightarrow> (string + bool) \<times> snake_puzzle \<Rightarrow> bool" where
  "atomic_move p r \<longleftrightarrow>
     (case fst r of
        Inr b \<Rightarrow> b \<and> one_cell p (snd r)
      | Inl msg \<Rightarrow> snd r = p)"

definition movements :: "(snake_puzzle \<Rightarrow> (string + bool) \<times> snake_puzzle) list" where
  "movements = [moveUp, moveDown, moveLeft, moveRight]"

section \<open>Command tables\<close>

text \<open>
  A command table is an object, and \<^verbatim>\<open>this.commands[name]\<close> reads it through its
  prototype chain. A table written as an object literal therefore yields, beside its own
  members, the members of \<^verbatim>\<open>Object.prototype\<close>: they are truthy, so both executors take
  their names for defined. What a call of such a member does is the JavaScript engine's
  business, not this program's; it is a parameter of the table (a member that is no
  function, as \<^verbatim>\<open>__proto__\<close>, makes the call expression throw: a command that throws).
\<close>

definition Object_prototype_member :: "string \<Rightarrow> bool" where
  "Object_prototype_member name \<longleftrightarrow>
     name = ''constructor'' \<or> name = ''hasOwnProperty'' \<or> name = ''isPrototypeOf''
     \<or> name = ''propertyIsEnumerable'' \<or> name = ''toLocaleString'' \<or> name = ''toString''
     \<or> name = ''valueOf'' \<or> name = ''__proto__'' \<or> name = ''__defineGetter__''
     \<or> name = ''__defineSetter__'' \<or> name = ''__lookupGetter__'' \<or> name = ''__lookupSetter__''"

text \<open>
  The command table that \<^verbatim>\<open>runLoopMiniGame\<close> builds around a puzzle, an object literal
  with nine members of its own. The movement commands pass on what the puzzle's method
  returns or throws; their own \<^verbatim>\<open>if (!result) throw new Error('Cannot move ...!')\<close> guards
  a result that is always \<^verbatim>\<open>true\<close>.
\<close>

definition movement_command ::
  "(snake_puzzle \<Rightarrow> (string + bool) \<times> snake_puzzle) \<Rightarrow> string \<Rightarrow> snake_puzzle command" where
  "movement_command move msg args p =
     (case move p of
        (Inl e, p1) \<Rightarrow> (Inl e, p1)
      | (Inr result, p1) \<Rightarrow> if \<not> result then (Inl msg, p1) else (Inr (VBool result), p1))"

definition query_command :: "(snake_puzzle \<Rightarrow> bool) \<Rightarrow> snake_puzzle command" where
  "query_command q args p = (Inr (VBool (q p)), p)"

definition loop_game_commands :: "(string \<Rightarrow> snake_puzzle command) \<Rightarrow> snake_puzzle commands" where
  "loop_game_commands inherited name =
     (if name = ''move_up'' then Some (movement_command moveUp ''Cannot move up!'')
      else if name = ''move_down'' then Some (movement_command moveDown ''Cannot move down!'')
      else if name = ''move_left'' then Some (movement_command moveLeft ''Cannot move left!'')
      else if name = ''move_right'' then Some (movement_command moveRight ''Cannot move right!'')
      else if name = ''at_goal'' then Some (query_command isAtGoal)
      else if name = ''can_move_up'' then Some (query_command canMoveUp)
      else if name = ''can_move_down'' then Some (query_command canMoveDown)
      else if name = ''can_move_left'' then Some (query_command canMoveLeft)
      else if name = ''can_move_right'' then Some (query_command canMoveRight)
      else if Object_prototype_member name then Some (inherited name)
      else None)"

text \<open>
  Two tables for experiments, with no member but their own (objects without a prototype).
  In the first the host state is the number of calls made so far; \<^verbatim>\<open>move_right\<close>,
  \<^verbatim>\<open>win\<close> and \<^verbatim>\<open>lose\<close> do nothing else, \<^verbatim>\<open>at_goal\<close> and \<^verbatim>\<open>can_move_right\<close> answer with a
  fixed boolean. In the second \<^verbatim>\<open>can_move_right\<close> answers \<^verbatim>\<open>true\<close> whatever the puzzle's
  state, and \<^verbatim>\<open>move_right\<close>, if the table has it, is the game's own.
\<close>

definition counting_commands :: "bool \<Rightarrow> nat commands" where
  "counting_commands answer name =
     (if name = ''move_right'' \<or> name = ''win'' \<or> name = ''lose''
      then Some (\<lambda>args calls. (Inr VUndefined, Suc calls))
      else if name = ''at_goal'' \<or> name = ''can_move_right''
      then Some (\<lambda>args calls. (Inr (VBool answer), Suc calls))
      else None)"

definition open_road_commands :: "bool \<Rightarrow> snake_puzzle commands" where
  "open_road_commands with_move name =
     (if name = ''can_move_right'' then Some (\<lambda>args p. (Inr (VBool True), p))
      else if name = ''move_right'' \<and> with_move
      then Some (movement_command moveRight ''Cannot move right!'')
      else None)"

text \<open>The world before a run, and the line break of the example scripts.\<close>

definition start :: "'h \<Rightarrow> 'h world" where
  "start h = \<lparr>host = h, trace = [], stopped = False\<rparr>"

definition nl :: string where
  "nl = [newline]"

text \<open>How often a command was invoked in a trace.\<close>

definition invocations :: "string \<Rightarrow> event list \<Rightarrow> nat" where
  "invocations name evs = length (filter (\<lambda>ev. case ev of Invoke n vs \<Rightarrow> n = name | _ \<Rightarrow> False) evs)"

subsection \<open>More fuel\<close>

text \<open>
  \<open>grows a b\<close>: the run \<open>b\<close> has returned what the run \<open>a\<close> returned, if \<open>a\<close> returned at
  all. It relates a parsing function at some fuel to the same function at more fuel.
\<close>

definition grows :: "'a option \<Rightarrow> 'a option \<Rightarrow> bool" where
  "grows a b \<longleftrightarrow> a = None \<or> a = b"

text \<open>
  A number ``truncated toward zero'': what the specification says of the count of
  \<^verbatim>\<open>repeat\<close>, kept apart from the parser, which calls \<^verbatim>\<open>Math.floor\<close>.
\<close>

definition truncated :: "rat \<Rightarrow> int" where
  "truncated r = (if r < 0 then \<lceil>r\<rceil> else \<lfloor>r\<rfloor>)"

text \<open>
  What is asked of a command table in the examples: a command that returns \<^verbatim>\<open>true\<close> on
  every call, and a command that returns on every call.
\<close>

definition always_returns_true :: "'h commands \<Rightarrow> string \<Rightarrow> bool" where
  "always_returns_true cmds name \<longleftrightarrow>
     (\<exists>c. cmds name = Some c \<and> (\<forall>args h. fst (c args h) = Inr (VBool True)))"

definition never_throws :: "'h commands \<Rightarrow> string \<Rightarrow> bool" where
  "never_throws cmds name \<longleftrightarrow>
     (\<exists>c. cmds name = Some c \<and> (\<forall>args h. \<exists>v. fst (c args h) = Inr v))"



text \<open>
  The names that a trace reports as not defined, in the order of the reports.
\<close>

definition name_errors :: "event list \<Rightarrow> string list" where
  "name_errors evs =
     concat (map (\<lambda>ev. case ev of Print (NameError n) channel \<Rightarrow> [n] | _ \<Rightarrow> []) evs)"

section \<open>Nesting of the structural tokens\<close>

text \<open>
  The number of tokens of a type, the nesting depth after a list of tokens (\<open>None\<close> once a
  \<^verbatim>\<open>DEDENT\<close> closes a block that was never opened), and what a token list owes to be
  well nested: it ends in \<^verbatim>\<open>EOF\<close>, has as many \<^verbatim>\<open>INDENT\<close>s as \<^verbatim>\<open>DEDENT\<close>s, and none
  of its prefixes has more \<^verbatim>\<open>DEDENT\<close>s than \<^verbatim>\<open>INDENT\<close>s.
\<close>

definition count_type :: "token_type \<Rightarrow> token list \<Rightarrow> nat" where
  "count_type ty ts = length (filter (\<lambda>t. ttype t = ty) ts)"

fun depth_after :: "nat \<Rightarrow> token list \<Rightarrow> nat option" where
  "depth_after d [] = Some d"
| "depth_after d (t # ts) =
     (if ttype t = INDENT then depth_after (Suc d) ts
      else if ttype t = DEDENT then (case d of 0 \<Rightarrow> None | Suc k \<Rightarrow> depth_after k ts)
      else depth_after d ts)"

definition well_nested :: "token list \<Rightarrow> bool" where
  "well_nested ts \<longleftrightarrow> ts \<noteq> [] \<and> ttype (last ts) = EOF
     \<and> count_type INDENT ts = count_type DEDENT ts
     \<and> (\<forall>n. count_type DEDENT (take n ts) \<le> count_type INDENT (take n ts))"

text \<open>The invariant of the lexer loops: the open blocks are the levels above the first.\<close>

definition nested :: "lexer \<Rightarrow> bool" where
  "nested l \<longleftrightarrow> indentStack l \<noteq> []
     \<and> depth_after 0 (tokens l) = Some (length (indentStack l) - 1)"

section \<open>Properties of the lexers\<close>

lemma depth_after_append:
  "depth_after d (xs @ ys) =
     (case depth_after d xs of None \<Rightarrow> None | Some k \<Rightarrow> depth_after k ys)"
  by (induction xs arbitrary: d) (auto split: nat.splits)

lemma depth_after_balance:
  "depth_after d ts = Some k \<Longrightarrow> d + count_type INDENT ts = k + count_type DEDENT ts"
proof (induction ts arbitrary: d)
  case Nil
  then show ?case by (simp add: count_type_def)
next
  case (Cons t ts)
  consider (indent) "ttype t = INDENT" | (dedent) "ttype t = DEDENT"
    | (plain) "ttype t \<noteq> INDENT" "ttype t \<noteq> DEDENT"
    by blast
  then show ?case
  proof cases
    case indent
    with Cons.prems have "depth_after (Suc d) ts = Some k"
      by simp
    from Cons.IH [OF this] indent show ?thesis
      by (simp add: count_type_def)
  next
    case dedent
    with Cons.prems obtain d' where d: "d = Suc d'" and "depth_after d' ts = Some k"
      by (cases d) auto
    from Cons.IH [OF this(2)] dedent d show ?thesis
      by (simp add: count_type_def)
  next
    case plain
    with Cons.prems have "depth_after d ts = Some k"
      by simp
    from Cons.IH [OF this] plain show ?thesis
      by (simp add: count_type_def)
  qed
qed

lemma depth_after_prefix:
  assumes "depth_after d ts = Some k"
  shows "count_type DEDENT (take n ts) \<le> d + count_type INDENT (take n ts)"
proof -
  have "depth_after d (take n ts @ drop n ts) = Some k"
    using assms by simp
  then obtain k' where "depth_after d (take n ts) = Some k'"
    unfolding depth_after_append by (cases "depth_after d (take n ts)") auto
  from depth_after_balance [OF this] show ?thesis
    by simp
qed

lemma nested_cong:
  "tokens l1 = tokens l \<Longrightarrow> indentStack l1 = indentStack l \<Longrightarrow> nested l1 = nested l"
  by (simp add: nested_def)

lemma nested_push_plain:
  "nested l \<Longrightarrow> ttype t \<noteq> INDENT \<Longrightarrow> ttype t \<noteq> DEDENT \<Longrightarrow> nested (push_token t l)"
  by (simp add: nested_def depth_after_append)

lemma nested_atLineStart [simp]: "nested (l\<lparr>atLineStart := b\<rparr>) = nested l"
  by (simp add: nested_def)

lemma nested_advance [simp]: "nested (advance l) = nested l"
  by (rule nested_cong) simp_all

lemma nested_advance_while [simp]: "nested (advance_while P l) = nested l"
  by (rule nested_cong) simp_all


lemma nested_dedent_loop: "nested l \<Longrightarrow> nested (dedent_loop indent l)"
proof (induction indent l rule: dedent_loop.induct)
  case (1 indent l)
  show ?case
  proof (cases "length (indentStack l) > 1 \<and> hd (indentStack l) > indent")
    case True
    let ?l1 = "push_token (mk_token DEDENT NoValue (line l) 1) (l\<lparr>indentStack := tl (indentStack l)\<rparr>)"
    from True "1.prems" have "nested ?l1"
      by (cases "indentStack l")
        (auto simp: nested_def depth_after_append mk_token_def split: nat.splits)
    from "1.IH" [OF True this] True show ?thesis
      by (subst dedent_loop.simps) simp
  next
    case False
    with "1.prems" show ?thesis
      by (subst dedent_loop.simps) auto
  qed
qed


lemma nested_flush_dedents:
  "nested l \<Longrightarrow> nested (flush_dedents l) \<and> length (indentStack (flush_dedents l)) = 1"
proof (induction l rule: flush_dedents.induct)
  case (1 l)
  show ?case
  proof (cases "length (indentStack l) > 1")
    case True
    let ?l1 = "push_token (mk_token DEDENT NoValue (line l) (col l)) (l\<lparr>indentStack := tl (indentStack l)\<rparr>)"
    from True "1.prems" have "nested ?l1"
      by (cases "indentStack l")
        (auto simp: nested_def depth_after_append mk_token_def split: nat.splits)
    from "1.IH" [OF True this] True show ?thesis
      by (subst (1 2) flush_dedents.simps) simp
  next
    case False
    with "1.prems" show ?thesis
      by (subst (1 2) flush_dedents.simps) (cases "indentStack l"; auto simp: nested_def)
  qed
qed


lemma measureIndent_nested:
  "measureIndent l = (i, l1) \<Longrightarrow> nested l1 = nested l"
  by (rule nested_cong) (auto simp: measureIndent_def dest: measureIndent_loop_fields)

lemma nested_skip_blank_line [simp]: "nested (skip_blank_line l) = nested l"
  by (simp add: skip_blank_line_def skipComment_def Let_def)

lemma nested_push_indent:
  assumes "nested l"
  shows "nested (push_token (mk_token INDENT NoValue li co) (l\<lparr>indentStack := i # indentStack l\<rparr>))"
  using assms by (cases "indentStack l") (auto simp: nested_def depth_after_append mk_token_def)

lemma Lexer_lineStart_nested:
  assumes "nested l"
  shows "case Lexer_lineStart l of
           Continue l1 \<Rightarrow> nested l1 | Break l1 \<Rightarrow> nested l1 | Proceed l1 \<Rightarrow> nested l1
         | Throw e \<Rightarrow> False"
proof -
  obtain i l0 where m: "measureIndent l = (i, l0)"
    by (cases "measureIndent l")
  with assms have n0: "nested l0"
    by (simp add: measureIndent_nested)
  then show ?thesis
    using m nested_push_indent [OF n0] nested_dedent_loop [OF n0]
    by (auto simp: Lexer_lineStart_def Let_def split: list.splits)
qed

lemma MiniLexer_lineStart_nested:
  assumes "nested l"
  shows "case MiniLexer_lineStart l of
           Continue l1 \<Rightarrow> nested l1 | Break l1 \<Rightarrow> nested l1 | Proceed l1 \<Rightarrow> nested l1
         | Throw e \<Rightarrow> True"
proof -
  obtain i l0 where m: "measureIndent l = (i, l0)"
    by (cases "measureIndent l")
  with assms have n0: "nested l0"
    by (simp add: measureIndent_nested)
  have push: "nested (push_token (mk_token INDENT NoValue li co)
      (l0\<lparr>indentStack := i # indentStack l0, atLineStart := False\<rparr>))" for li co
    using nested_push_indent [OF n0, of li co i] by (simp add: nested_def)
  show ?thesis
    using m n0 push nested_dedent_loop [OF n0]
    by (auto simp: MiniLexer_lineStart_def Let_def split: list.splits)
qed

lemma keyword_not_structural:
  "Lexer_keywords k \<noteq> Some INDENT" "Lexer_keywords k \<noteq> Some DEDENT"
  "MiniLexer_keywords k \<noteq> Some INDENT" "MiniLexer_keywords k \<noteq> Some DEDENT"
  by (simp_all add: Lexer_keywords_def MiniLexer_keywords_def)

lemma punctuation_not_structural:
  "punctuation ch = Some ty \<Longrightarrow> ty \<noteq> INDENT \<and> ty \<noteq> DEDENT"
  by (auto simp: punctuation_def split: if_splits)

lemma readString_nested:
  assumes "readString quote l = (t, l1)" and "nested l"
  shows "nested (push_token t l1)"
proof -
  obtain v l2 where loop: "readString_loop quote [] (advance l) = (v, l2)"
    by (cases "readString_loop quote [] (advance l)")
  from readString_loop_fields [OF loop] assms(2) have "nested l2"
    by (simp add: nested_def)
  with assms(1) loop show ?thesis
    by (auto simp: readString_def Let_def mk_token_def intro!: nested_push_plain split: if_splits)
qed

lemma Lexer_readNumber_nested:
  assumes "Lexer_readNumber l = (t, l1)" and "nested l"
  shows "nested (push_token t l1)"
  using assms
  by (auto simp: Lexer_readNumber_def Let_def mk_token_def intro!: nested_push_plain
      split: if_splits prod.splits)

lemma MiniLexer_readNumber_nested:
  assumes "MiniLexer_readNumber l = (t, l1)" and "nested l"
  shows "nested (push_token t l1)"
  using assms
  by (auto simp: MiniLexer_readNumber_def Let_def mk_token_def intro!: nested_push_plain
      split: if_splits prod.splits)

lemma readIdentifier_nested:
  assumes "readIdentifier kw l = (t, l1)" and "nested l"
    and "\<And>k. kw k \<noteq> Some INDENT" and "\<And>k. kw k \<noteq> Some DEDENT"
  shows "nested (push_token t l1)"
proof -
  from assms(1) have t: "ttype t = (case kw (toLowerCase (takeWhile isAlphaNumeric (rest l))) of
      None \<Rightarrow> IDENTIFIER | Some k \<Rightarrow> k)" and l1: "l1 = advance_while isAlphaNumeric l"
    by (auto simp: readIdentifier_def Let_def mk_token_def)
  have "ttype t \<noteq> INDENT" "ttype t \<noteq> DEDENT"
    using assms(3,4) unfolding t by (auto split: option.splits)
  with assms(2) l1 show ?thesis
    by (auto intro!: nested_push_plain)
qed

lemma Lexer_scan_nested:
  assumes "nested l"
  shows "nested (Lexer_scan l)"
proof (cases "peek l")
  case None
  show ?thesis
    unfolding Lexer_scan_def None option.case using assms by simp
next
  case (Some ch)
  have plain: "nested (push_token (mk_token ty NoValue li co) l)" if "ty \<noteq> INDENT" "ty \<noteq> DEDENT"
    for ty li co
    using assms that by (auto intro!: nested_push_plain simp: mk_token_def)
  show ?thesis
    unfolding Lexer_scan_def Some option.case
    using assms plain punctuation_not_structural [of ch]
      readString_nested [of ch l] Lexer_readNumber_nested [of l]
      readIdentifier_nested [of Lexer_keywords l] keyword_not_structural
    by (auto simp: skipWhitespaceOnLine_def skipComment_def split: prod.splits)
qed

lemma MiniLexer_scan_nested:
  assumes "nested l"
  shows "nested (MiniLexer_scan l)"
proof (cases "peek l")
  case None
  show ?thesis
    unfolding MiniLexer_scan_def None option.case using assms by simp
next
  case (Some ch)
  have plain: "nested (push_token (mk_token ty NoValue li co) l)" if "ty \<noteq> INDENT" "ty \<noteq> DEDENT"
    for ty li co
    using assms that by (auto intro!: nested_push_plain simp: mk_token_def)
  show ?thesis
    unfolding MiniLexer_scan_def Some option.case
    using assms plain punctuation_not_structural [of ch]
      MiniLexer_readNumber_nested [of l]
      readIdentifier_nested [of MiniLexer_keywords l] keyword_not_structural
    by (auto simp: skipWhitespaceOnLine_def skipComment_def split: prod.splits)
qed


lemma Lexer_iteration_nested:
  assumes "nested l"
  shows "case Lexer_iteration l of
           Continue l1 \<Rightarrow> nested l1 | Break l1 \<Rightarrow> nested l1 | Proceed l1 \<Rightarrow> nested l1
         | Throw e \<Rightarrow> False"
  using Lexer_lineStart_nested [OF assms] Lexer_scan_nested assms
  by (auto simp: Lexer_iteration_def split: step.splits)

lemma MiniLexer_iteration_nested:
  assumes "nested l"
  shows "case MiniLexer_iteration l of
           Continue l1 \<Rightarrow> nested l1 | Break l1 \<Rightarrow> nested l1 | Proceed l1 \<Rightarrow> nested l1
         | Throw e \<Rightarrow> True"
  using MiniLexer_lineStart_nested [OF assms] MiniLexer_scan_nested assms
  by (auto simp: MiniLexer_iteration_def split: step.splits)

lemma Lexer_loop_nested:
  "nested l \<Longrightarrow> \<exists>l1. Lexer_loop l = Inr l1 \<and> nested l1"
proof (induction l rule: Lexer_loop.induct)
  case (1 l)
  show ?case
  proof (cases "rest l = []")
    case True
    with "1.prems" show ?thesis
      by (subst Lexer_loop.simps) simp
  next
    case False
    from Lexer_iteration_nested [OF "1.prems"] "1.IH" [OF False] False show ?thesis
      by (subst Lexer_loop.simps) (auto split: step.splits)
  qed
qed

lemma MiniLexer_loop_nested:
  "nested l \<Longrightarrow> MiniLexer_loop l = Inr l1 \<Longrightarrow> nested l1"
proof (induction l rule: MiniLexer_loop.induct)
  case (1 l)
  show ?case
  proof (cases "rest l = []")
    case True
    with "1.prems" show ?thesis
      by (subst (asm) MiniLexer_loop.simps) simp
  next
    case False
    from "1.prems"(2) False
    have step: "(case MiniLexer_iteration l of Continue l2 \<Rightarrow> MiniLexer_loop l2
        | Break l2 \<Rightarrow> Inr l2 | Proceed l2 \<Rightarrow> Inr l2 | Throw e \<Rightarrow> Inl e) = Inr l1"
      by (subst (asm) MiniLexer_loop.simps) simp
    from MiniLexer_iteration_nested [OF "1.prems"(1)] "1.IH" [OF False] step show ?thesis
      by (auto split: step.splits)
  qed
qed

lemma nested_new_lexer: "nested (new_lexer source)"
  by (simp add: nested_def new_lexer_def)

lemma finish_well_nested:
  assumes "nested l"
  shows "well_nested (finish l)"
proof -
  let ?l1 = "flush_dedents l"
  from nested_flush_dedents [OF assms] have d: "depth_after 0 (tokens ?l1) = Some 0"
    by (simp add: nested_def)
  let ?eof = "mk_token EOF NoValue (line ?l1) (col ?l1)"
  have fin: "finish l = tokens ?l1 @ [?eof]"
    by (simp add: finish_def Let_def)
  have "depth_after 0 (finish l) = Some 0"
    unfolding fin depth_after_append d by (simp add: mk_token_def)
  from depth_after_balance [OF this] depth_after_prefix [OF this] show ?thesis
    unfolding well_nested_def by (simp add: fin mk_token_def)
qed

text \<open>The script lexer never throws.\<close>

lemma Lexer_tokenize_returns: "\<exists>ts. Lexer_tokenize source = Inr (finish ts) \<and> nested ts"
  using Lexer_loop_nested [OF nested_new_lexer, of source]
  by (auto simp: Lexer_tokenize_def)

text \<open>
  Claim C9. Whenever \<^verbatim>\<open>tokenize\<close> returns, the token list is not empty, its last token
  is \<^verbatim>\<open>EOF\<close>, it has as many \<^verbatim>\<open>INDENT\<close> as \<^verbatim>\<open>DEDENT\<close> tokens, and no prefix of it has
  more \<^verbatim>\<open>DEDENT\<close> than \<^verbatim>\<open>INDENT\<close> tokens. The script lexer returns on every source text;
  the mini-game lexer returns unless it throws its indentation error.
\<close>

theorem C9_tokens_well_nested:
  "(\<exists>ts. Lexer_tokenize source = Inr ts \<and> well_nested ts)
   \<and> (\<forall>ts. MiniLexer_tokenize source = Inr ts \<longrightarrow> well_nested ts)"
proof
  from Lexer_tokenize_returns [of source] finish_well_nested
  show "\<exists>ts. Lexer_tokenize source = Inr ts \<and> well_nested ts"
    by blast
next
  show "\<forall>ts. MiniLexer_tokenize source = Inr ts \<longrightarrow> well_nested ts"
  proof (intro allI impI)
    fix ts
    assume "MiniLexer_tokenize source = Inr ts"
    then obtain l where "MiniLexer_loop (new_lexer source) = Inr l" and ts: "ts = finish l"
      by (auto simp: MiniLexer_tokenize_def split: sum.splits)
    from MiniLexer_loop_nested [OF nested_new_lexer this(1)] have "nested l" .
    with ts show "well_nested ts"
      by (simp add: finish_well_nested)
  qed
qed

theorem C9_tokens_well_nested_witness:
  "\<exists>ts. MiniLexer_tokenize (''if a():'' @ nl @ ''    b()'' @ nl @ ''c()'') = Inr ts
     \<and> map ttype ts = [IF, IDENTIFIER, LPAREN, RPAREN, COLON, NEWLINE, INDENT, IDENTIFIER, LPAREN,
          RPAREN, NEWLINE, DEDENT, IDENTIFIER, LPAREN, RPAREN, EOF]
     \<and> well_nested ts"
proof -
  let ?src = "''if a():'' @ nl @ ''    b()'' @ nl @ ''c()''"
  have "map_sum id (map ttype) (MiniLexer_tokenize ?src)
      = Inr [IF, IDENTIFIER, LPAREN, RPAREN, COLON, NEWLINE, INDENT, IDENTIFIER, LPAREN,
          RPAREN, NEWLINE, DEDENT, IDENTIFIER, LPAREN, RPAREN, EOF]"
    by code_simp
  then obtain ts where ts: "MiniLexer_tokenize ?src = Inr ts"
    and types: "map ttype ts = [IF, IDENTIFIER, LPAREN, RPAREN, COLON, NEWLINE, INDENT, IDENTIFIER,
      LPAREN, RPAREN, NEWLINE, DEDENT, IDENTIFIER, LPAREN, RPAREN, EOF]"
    by (cases "MiniLexer_tokenize ?src") auto
  from C9_tokens_well_nested [of ?src] ts have "well_nested ts"
    by blast
  with ts types show ?thesis
    by (intro exI [of _ ts] conjI)
qed

section \<open>Properties of the parsers\<close>

subsection \<open>More fuel never changes a result\<close>

lemma grows_refl: "grows a a"
  by (simp add: grows_def)

lemma grows_None: "grows None b"
  by (simp add: grows_def)

lemma grows_bind:
  "grows a b \<Longrightarrow> (\<And>x ts. grows (f x ts) (g x ts)) \<Longrightarrow> grows (bind_parsed a f) (bind_parsed b g)"
  by (auto simp: grows_def bind_parsed_def split: option.splits sum.splits)

lemma grows_if:
  "(c \<Longrightarrow> grows a b) \<Longrightarrow> (\<not> c \<Longrightarrow> grows a' b') \<Longrightarrow>
     grows (if c then a else a') (if c then b else b')"
  by simp

lemma grows_let: "(\<And>x. grows (f x) (g x)) \<Longrightarrow> grows (Let v f) (Let v g)"
  by simp

lemma Parser_fuel_step:
  assumes "\<And>ts. grows (Parser_parseStatement n ts) (Parser_parseStatement (Suc n) ts)"
    and "\<And>ts. grows (Parser_parseCallOrSequence n ts) (Parser_parseCallOrSequence (Suc n) ts)"
    and "\<And>calls ts. grows (Parser_sequence_loop n calls ts) (Parser_sequence_loop (Suc n) calls ts)"
    and "\<And>ts. grows (Parser_parseCall n ts) (Parser_parseCall (Suc n) ts)"
    and "\<And>args ts. grows (Parser_arguments_loop n args ts) (Parser_arguments_loop (Suc n) args ts)"
    and "\<And>ts. grows (Parser_parseArgument n ts) (Parser_parseArgument (Suc n) ts)"
    and "\<And>ts. grows (Parser_parseRepeat n ts) (Parser_parseRepeat (Suc n) ts)"
    and "\<And>ts. grows (Parser_parseIf n ts) (Parser_parseIf (Suc n) ts)"
    and "\<And>ts. grows (Parser_parseCondition n ts) (Parser_parseCondition (Suc n) ts)"
    and "\<And>ts. grows (Parser_parseBlock n ts) (Parser_parseBlock (Suc n) ts)"
    and "\<And>stmts ts. grows (Parser_block_loop n stmts ts) (Parser_block_loop (Suc n) stmts ts)"
  shows "grows (Parser_parseStatement (Suc n) ts) (Parser_parseStatement (Suc (Suc n)) ts)"
    and "grows (Parser_parseCallOrSequence (Suc n) ts) (Parser_parseCallOrSequence (Suc (Suc n)) ts)"
    and "grows (Parser_sequence_loop (Suc n) calls ts) (Parser_sequence_loop (Suc (Suc n)) calls ts)"
    and "grows (Parser_parseCall (Suc n) ts) (Parser_parseCall (Suc (Suc n)) ts)"
    and "grows (Parser_arguments_loop (Suc n) args ts) (Parser_arguments_loop (Suc (Suc n)) args ts)"
    and "grows (Parser_parseArgument (Suc n) ts) (Parser_parseArgument (Suc (Suc n)) ts)"
    and "grows (Parser_parseRepeat (Suc n) ts) (Parser_parseRepeat (Suc (Suc n)) ts)"
    and "grows (Parser_parseIf (Suc n) ts) (Parser_parseIf (Suc (Suc n)) ts)"
    and "grows (Parser_parseCondition (Suc n) ts) (Parser_parseCondition (Suc (Suc n)) ts)"
    and "grows (Parser_parseBlock (Suc n) ts) (Parser_parseBlock (Suc (Suc n)) ts)"
    and "grows (Parser_block_loop (Suc n) stmts ts) (Parser_block_loop (Suc (Suc n)) stmts ts)"
  subgoal
    apply (subst Parser_parseStatement.simps(2) [of "Suc n"])
    apply (subst Parser_parseStatement.simps(2) [of n])
    apply (intro grows_refl assms grows_bind grows_if grows_let)
    done
  subgoal
    apply (subst Parser_parseCallOrSequence.simps(2) [of "Suc n"])
    apply (subst Parser_parseCallOrSequence.simps(2) [of n])
    apply (intro grows_refl assms grows_bind grows_if grows_let)
    done
  subgoal
    apply (subst Parser_sequence_loop.simps(2) [of "Suc n"])
    apply (subst Parser_sequence_loop.simps(2) [of n])
    apply (intro grows_refl assms grows_bind grows_if grows_let)
    done
  subgoal
    apply (subst Parser_parseCall.simps(2) [of "Suc n"])
    apply (subst Parser_parseCall.simps(2) [of n])
    apply (intro grows_refl assms grows_bind grows_if grows_let)
    done
  subgoal
    apply (subst Parser_arguments_loop.simps(2) [of "Suc n"])
    apply (subst Parser_arguments_loop.simps(2) [of n])
    apply (intro grows_refl assms grows_bind grows_if grows_let)
    done
  subgoal
    apply (subst Parser_parseArgument.simps(2) [of "Suc n"])
    apply (subst Parser_parseArgument.simps(2) [of n])
    apply (intro grows_refl assms grows_bind grows_if grows_let)
    done
  subgoal
    apply (subst Parser_parseRepeat.simps(2) [of "Suc n"])
    apply (subst Parser_parseRepeat.simps(2) [of n])
    apply (intro grows_refl assms grows_bind grows_if grows_let)
    done
  subgoal
    apply (subst Parser_parseIf.simps(2) [of "Suc n"])
    apply (subst Parser_parseIf.simps(2) [of n])
    apply (intro grows_refl assms grows_bind grows_if grows_let)
    done
  subgoal
    apply (subst Parser_parseCondition.simps(2) [of "Suc n"])
    apply (subst Parser_parseCondition.simps(2) [of n])
    apply (intro grows_refl assms grows_bind grows_if grows_let)
    done
  subgoal
    apply (subst Parser_parseBlock.simps(2) [of "Suc n"])
    apply (subst Parser_parseBlock.simps(2) [of n])
    apply (intro grows_refl assms grows_bind grows_if grows_let)
    done
  subgoal
    apply (subst Parser_block_loop.simps(2) [of "Suc n"])
    apply (subst Parser_block_loop.simps(2) [of n])
    apply (intro grows_refl assms grows_bind grows_if grows_let)
    done
  done


lemma Parser_fuel_Suc:
  "(\<forall>ts. grows (Parser_parseStatement n ts) (Parser_parseStatement (Suc n) ts))
   \<and> (\<forall>ts. grows (Parser_parseCallOrSequence n ts) (Parser_parseCallOrSequence (Suc n) ts))
   \<and> (\<forall>calls ts. grows (Parser_sequence_loop n calls ts) (Parser_sequence_loop (Suc n) calls ts))
   \<and> (\<forall>ts. grows (Parser_parseCall n ts) (Parser_parseCall (Suc n) ts))
   \<and> (\<forall>args ts. grows (Parser_arguments_loop n args ts) (Parser_arguments_loop (Suc n) args ts))
   \<and> (\<forall>ts. grows (Parser_parseArgument n ts) (Parser_parseArgument (Suc n) ts))
   \<and> (\<forall>ts. grows (Parser_parseRepeat n ts) (Parser_parseRepeat (Suc n) ts))
   \<and> (\<forall>ts. grows (Parser_parseIf n ts) (Parser_parseIf (Suc n) ts))
   \<and> (\<forall>ts. grows (Parser_parseCondition n ts) (Parser_parseCondition (Suc n) ts))
   \<and> (\<forall>ts. grows (Parser_parseBlock n ts) (Parser_parseBlock (Suc n) ts))
   \<and> (\<forall>stmts ts. grows (Parser_block_loop n stmts ts) (Parser_block_loop (Suc n) stmts ts))"
proof (induction n)
  case 0
  show ?case
    by (simp add: grows_None)
next
  case (Suc n)
  then show ?case
    by (intro conjI allI Parser_fuel_step) blast+
qed

lemma grows_Some: "grows a b \<Longrightarrow> a = Some r \<Longrightarrow> b = Some r"
  by (simp add: grows_def)

lemma Parser_parseStatement_fuel:
  "Parser_parseStatement n ts = Some r \<Longrightarrow> Parser_parseStatement (n + k) ts = Some r"
proof (induction k)
  case 0
  then show ?case by simp
next
  case (Suc k)
  from Parser_fuel_Suc [of "n + k"] have "grows (Parser_parseStatement (n + k) ts)
      (Parser_parseStatement (Suc (n + k)) ts)"
    by blast
  from grows_Some [OF this Suc.IH [OF Suc.prems]] show ?case
    by simp
qed

lemma Parser_parse_loop_Suc:
  "grows (Parser_parse_loop n stmts ts) (Parser_parse_loop (Suc n) stmts ts)"
proof (induction n arbitrary: stmts ts)
  case 0
  show ?case by (simp add: grows_None)
next
  case (Suc n)
  from Parser_fuel_Suc [of n]
  have st: "grows (Parser_parseStatement n ts) (Parser_parseStatement (Suc n) ts)"
    by blast
  show ?case
  proof (cases "Parser_parseStatement n ts")
    case None
    then show ?thesis
      by (simp add: grows_def)
  next
    case (Some r)
    with st have "Parser_parseStatement (Suc n) ts = Some r"
      by (simp add: grows_def)
    with Some Suc.IH show ?thesis
      by (cases r) (auto simp: grows_refl split: prod.splits)
  qed
qed

lemma Parser_parse_loop_fuel:
  "Parser_parse_loop n stmts ts = Some r \<Longrightarrow> Parser_parse_loop (n + k) stmts ts = Some r"
proof (induction k)
  case 0
  then show ?case by simp
next
  case (Suc k)
  from grows_Some [OF Parser_parse_loop_Suc Suc.IH [OF Suc.prems]] show ?case
    by simp
qed

lemma Parser_parse_loop_agree:
  assumes "Parser_parse_loop n stmts ts = Some r" and "Parser_parse_loop m stmts ts = Some r'"
  shows "r = r'"
proof -
  from Parser_parse_loop_fuel [OF assms(1), of m] Parser_parse_loop_fuel [OF assms(2), of n]
  show ?thesis
    by (simp add: add.commute)
qed

text \<open>A DEDENT at a top-level statement position is never consumed.\<close>

lemma Parser_parse_loop_stuck:
  "peek_type ts = DEDENT \<Longrightarrow> Parser_parse_loop n stmts ts = None"
proof (induction n arbitrary: stmts)
  case 0
  show ?case by simp
next
  case (Suc n)
  from Suc.prems obtain t others where ts: "ts = t # others" "ttype t = DEDENT"
    by (cases ts) (auto simp: peek_type_def peek_token_def eof_token_def mk_token_def)
  show ?case
  proof (cases n)
    case 0
    then show ?thesis
      using Suc.prems by simp
  next
    case (Suc k)
    with Suc.prems ts have "Parser_parseStatement n ts = ok None ts"
      by simp
    with Suc.IH [OF Suc.prems] Suc.prems ts show ?thesis
      by (simp add: ok_def pushed_def)
  qed
qed

lemma MiniParser_arguments_loop_Suc:
  "grows (MiniParser_arguments_loop n args ts) (MiniParser_arguments_loop (Suc n) args ts)"
proof (induction n arbitrary: args ts)
  case 0
  show ?case by (simp add: grows_None)
next
  case (Suc n)
  show ?case
    apply (subst MiniParser_arguments_loop.simps(2) [of "Suc n"])
    apply (subst MiniParser_arguments_loop.simps(2) [of n])
    apply (intro grows_refl Suc.IH grows_bind grows_if grows_let)
    done
qed

lemma MiniParser_parseCallWithParens_Suc:
  "grows (MiniParser_parseCallWithParens n name li ts)
     (MiniParser_parseCallWithParens (Suc n) name li ts)"
  unfolding MiniParser_parseCallWithParens_def
  by (intro grows_refl MiniParser_arguments_loop_Suc grows_bind grows_if grows_let)

lemma MiniParser_parseCondition_Suc:
  "grows (MiniParser_parseCondition n ts) (MiniParser_parseCondition (Suc n) ts)"
  unfolding MiniParser_parseCondition_def
  by (intro grows_refl MiniParser_parseCallWithParens_Suc grows_bind grows_if grows_let)

lemma MiniParser_parseCall_Suc:
  "grows (MiniParser_parseCall n ts) (MiniParser_parseCall (Suc n) ts)"
  unfolding MiniParser_parseCall_def
  by (intro grows_refl MiniParser_parseCallWithParens_Suc grows_bind grows_if grows_let)

lemmas MiniParser_plain_Suc = MiniParser_parseCondition_Suc MiniParser_parseCall_Suc

lemma MiniParser_fuel_step:
  assumes "\<And>ts. grows (MiniParser_parseStatement n ts) (MiniParser_parseStatement (Suc n) ts)"
    and "\<And>ts. grows (MiniParser_parseForLoop n ts) (MiniParser_parseForLoop (Suc n) ts)"
    and "\<And>ts. grows (MiniParser_parseWhileLoop n ts) (MiniParser_parseWhileLoop (Suc n) ts)"
    and "\<And>ts. grows (MiniParser_parseIfStatement n ts) (MiniParser_parseIfStatement (Suc n) ts)"
    and "\<And>clauses ts. grows (MiniParser_elif_loop n clauses ts) (MiniParser_elif_loop (Suc n) clauses ts)"
    and "\<And>ts. grows (MiniParser_parseBlock n ts) (MiniParser_parseBlock (Suc n) ts)"
    and "\<And>stmts ts. grows (MiniParser_block_loop n stmts ts) (MiniParser_block_loop (Suc n) stmts ts)"
  shows "grows (MiniParser_parseStatement (Suc n) ts) (MiniParser_parseStatement (Suc (Suc n)) ts)"
    and "grows (MiniParser_parseForLoop (Suc n) ts) (MiniParser_parseForLoop (Suc (Suc n)) ts)"
    and "grows (MiniParser_parseWhileLoop (Suc n) ts) (MiniParser_parseWhileLoop (Suc (Suc n)) ts)"
    and "grows (MiniParser_parseIfStatement (Suc n) ts) (MiniParser_parseIfStatement (Suc (Suc n)) ts)"
    and "grows (MiniParser_elif_loop (Suc n) clauses ts) (MiniParser_elif_loop (Suc (Suc n)) clauses ts)"
    and "grows (MiniParser_parseBlock (Suc n) ts) (MiniParser_parseBlock (Suc (Suc n)) ts)"
    and "grows (MiniParser_block_loop (Suc n) stmts ts) (MiniParser_block_loop (Suc (Suc n)) stmts ts)"
  subgoal
    apply (subst MiniParser_parseStatement.simps(2) [of "Suc n"])
    apply (subst MiniParser_parseStatement.simps(2) [of n])
    apply (intro grows_refl assms MiniParser_plain_Suc grows_bind grows_if grows_let)
    done
  subgoal
    apply (subst MiniParser_parseForLoop.simps(2) [of "Suc n"])
    apply (subst MiniParser_parseForLoop.simps(2) [of n])
    apply (intro grows_refl assms MiniParser_plain_Suc grows_bind grows_if grows_let)
    done
  subgoal
    apply (subst MiniParser_parseWhileLoop.simps(2) [of "Suc n"])
    apply (subst MiniParser_parseWhileLoop.simps(2) [of n])
    apply (intro grows_refl assms MiniParser_plain_Suc grows_bind grows_if grows_let)
    done
  subgoal
    apply (subst MiniParser_parseIfStatement.simps(2) [of "Suc n"])
    apply (subst MiniParser_parseIfStatement.simps(2) [of n])
    apply (intro grows_refl assms MiniParser_plain_Suc grows_bind grows_if grows_let)
    done
  subgoal
    apply (subst MiniParser_elif_loop.simps(2) [of "Suc n"])
    apply (subst MiniParser_elif_loop.simps(2) [of n])
    apply (intro grows_refl assms MiniParser_plain_Suc grows_bind grows_if grows_let)
    done
  subgoal
    apply (subst MiniParser_parseBlock.simps(2) [of "Suc n"])
    apply (subst MiniParser_parseBlock.simps(2) [of n])
    apply (intro grows_refl assms MiniParser_plain_Suc grows_bind grows_if grows_let)
    done
  subgoal
    apply (subst MiniParser_block_loop.simps(2) [of "Suc n"])
    apply (subst MiniParser_block_loop.simps(2) [of n])
    apply (intro grows_refl assms MiniParser_plain_Suc grows_bind grows_if grows_let)
    done
  done

lemma MiniParser_fuel_Suc:
  "(\<forall>ts. grows (MiniParser_parseStatement n ts) (MiniParser_parseStatement (Suc n) ts))
   \<and> (\<forall>ts. grows (MiniParser_parseForLoop n ts) (MiniParser_parseForLoop (Suc n) ts))
   \<and> (\<forall>ts. grows (MiniParser_parseWhileLoop n ts) (MiniParser_parseWhileLoop (Suc n) ts))
   \<and> (\<forall>ts. grows (MiniParser_parseIfStatement n ts) (MiniParser_parseIfStatement (Suc n) ts))
   \<and> (\<forall>clauses ts. grows (MiniParser_elif_loop n clauses ts) (MiniParser_elif_loop (Suc n) clauses ts))
   \<and> (\<forall>ts. grows (MiniParser_parseBlock n ts) (MiniParser_parseBlock (Suc n) ts))
   \<and> (\<forall>stmts ts. grows (MiniParser_block_loop n stmts ts) (MiniParser_block_loop (Suc n) stmts ts))"
proof (induction n)
  case 0
  show ?case
    by (simp add: grows_None)
next
  case (Suc n)
  then show ?case
    by (intro conjI allI MiniParser_fuel_step) blast+
qed

lemma MiniParser_parse_loop_Suc:
  "grows (MiniParser_parse_loop n stmts ts) (MiniParser_parse_loop (Suc n) stmts ts)"
proof (induction n arbitrary: stmts ts)
  case 0
  show ?case by (simp add: grows_None)
next
  case (Suc n)
  from MiniParser_fuel_Suc [of n]
  have st: "grows (MiniParser_parseStatement n ts) (MiniParser_parseStatement (Suc n) ts)"
    by blast
  show ?case
  proof (cases "MiniParser_parseStatement n ts")
    case None
    then show ?thesis
      by (simp add: grows_def)
  next
    case (Some r)
    with st have "MiniParser_parseStatement (Suc n) ts = Some r"
      by (simp add: grows_def)
    with Some Suc.IH show ?thesis
      by (cases r) (auto simp: grows_refl split: prod.splits)
  qed
qed

lemma MiniParser_parse_loop_fuel:
  "MiniParser_parse_loop n stmts ts = Some r \<Longrightarrow> MiniParser_parse_loop (n + k) stmts ts = Some r"
proof (induction k)
  case 0
  then show ?case by simp
next
  case (Suc k)
  from grows_Some [OF MiniParser_parse_loop_Suc Suc.IH [OF Suc.prems]] show ?case
    by simp
qed

lemma MiniParser_parse_loop_agree:
  assumes "MiniParser_parse_loop n stmts ts = Some r" and "MiniParser_parse_loop m stmts ts = Some r'"
  shows "r = r'"
proof -
  from MiniParser_parse_loop_fuel [OF assms(1), of m] MiniParser_parse_loop_fuel [OF assms(2), of n]
  show ?thesis
    by (simp add: add.commute)
qed

lemma MiniParser_parse_loop_stuck:
  "peek_type ts = DEDENT \<Longrightarrow> MiniParser_parse_loop n stmts ts = None"
proof (induction n arbitrary: stmts)
  case 0
  show ?case by simp
next
  case (Suc n)
  from Suc.prems obtain t others where ts: "ts = t # others" "ttype t = DEDENT"
    by (cases ts) (auto simp: peek_type_def peek_token_def eof_token_def mk_token_def)
  show ?case
  proof (cases n)
    case 0
    then show ?thesis
      using Suc.prems by simp
  next
    case (Suc k)
    with Suc.prems ts have "MiniParser_parseStatement n ts = ok None ts"
      by simp
    with Suc.IH [OF Suc.prems] Suc.prems ts show ?thesis
      by (simp add: ok_def pushed_def)
  qed
qed

lemmas parser_defs = mk_token_def peek_type_def peek_token_def bind_parsed_def ok_def
   throw_def expect_def pushed_def num_of_def str_of_def

lemma fuel_plus_10: "n + 10 = Suc (Suc (Suc (Suc (Suc (Suc (Suc (Suc (Suc (Suc n)))))))))"
  by simp

subsection \<open>A stray indentation\<close>

lemma tokens_stray_indent:
  "Lexer_tokenize (''a()'' @ nl @ ''  b()'' @ nl @ ''c()'') = Inr
   [mk_token IDENTIFIER (StrValue ''a'') 1 1, mk_token LPAREN NoValue 1 2,
    mk_token RPAREN NoValue 1 3, mk_token NEWLINE NoValue 1 4, mk_token INDENT NoValue 2 1,
    mk_token IDENTIFIER (StrValue ''b'') 2 3, mk_token LPAREN NoValue 2 4,
    mk_token RPAREN NoValue 2 5, mk_token NEWLINE NoValue 2 6, mk_token DEDENT NoValue 3 1,
    mk_token IDENTIFIER (StrValue ''c'') 3 1, mk_token LPAREN NoValue 3 2,
    mk_token RPAREN NoValue 3 3, mk_token EOF NoValue 3 4]"
  by code_simp

lemma mini_tokens_stray_indent:
  "MiniLexer_tokenize (''a()'' @ nl @ ''  b()'' @ nl @ ''c()'') = Inr
   [mk_token IDENTIFIER (StrValue ''a'') 1 1, mk_token LPAREN NoValue 1 2,
    mk_token RPAREN NoValue 1 3, mk_token NEWLINE NoValue 1 4, mk_token INDENT NoValue 2 1,
    mk_token IDENTIFIER (StrValue ''b'') 2 3, mk_token LPAREN NoValue 2 4,
    mk_token RPAREN NoValue 2 5, mk_token NEWLINE NoValue 2 6, mk_token DEDENT NoValue 3 1,
    mk_token IDENTIFIER (StrValue ''c'') 3 1, mk_token LPAREN NoValue 3 2,
    mk_token RPAREN NoValue 3 3, mk_token EOF NoValue 3 4]"
  by code_simp

lemma Parser_parse_loop_unfold:
  "peek_type ts \<noteq> DEDENT \<Longrightarrow>
     Parser_parse_loop (Suc n) statements ts =
       (if peek_type ts \<noteq> EOF
        then (case Parser_parseStatement n ts of
                None \<Rightarrow> None
              | Some (Inl e) \<Rightarrow> Some (Inl e)
              | Some (Inr (stmt, ts1)) \<Rightarrow>
                  Parser_parse_loop n (pushed statements stmt) (skipNewlines ts1))
        else Some (Inr (Program statements)))"
  by simp

lemma MiniParser_parse_loop_unfold:
  "peek_type ts \<noteq> DEDENT \<Longrightarrow>
     MiniParser_parse_loop (Suc n) statements ts =
       (if peek_type ts \<noteq> EOF
        then (case MiniParser_parseStatement n ts of
                None \<Rightarrow> None
              | Some (Inl e) \<Rightarrow> Some (Inl e)
              | Some (Inr (stmt, ts1)) \<Rightarrow>
                  MiniParser_parse_loop n (pushed statements stmt) (skipNewlines ts1))
        else Some (Inr (Program statements)))"
  by simp

lemma parse_stray_indent_enough_fuel:
  "parseScript (m + 10) (''a()'' @ nl @ ''  b()'' @ nl @ ''c()'') = None"
  unfolding parseScript_def tokens_stray_indent fuel_plus_10
  by (simp del: Parser_parse_loop.simps
      add: Parser_parse_def Parser_parse_loop_unfold Parser_parse_loop_stuck parser_defs)

lemma mini_parse_stray_indent_enough_fuel:
  "mini_parse_source (m + 10) (''a()'' @ nl @ ''  b()'' @ nl @ ''c()'') = None"
  unfolding mini_parse_source_def mini_tokens_stray_indent fuel_plus_10
  by (simp del: MiniParser_parse_loop.simps
      add: MiniParser_parse_def MiniParser_parse_loop_unfold MiniParser_parse_loop_stuck
        MiniParser_parseCall_def MiniParser_parseCondition_def
        MiniParser_parseCallWithParens_def MiniParser_parseArgument_def parser_defs)

lemma parseScript_fuel:
  "parseScript n source = Some r \<Longrightarrow> parseScript (n + k) source = Some r"
  by (auto simp: parseScript_def Parser_parse_def Parser_parse_loop_fuel split: sum.splits)

lemma mini_parse_source_fuel:
  "mini_parse_source n source = Some r \<Longrightarrow> mini_parse_source (n + k) source = Some r"
  by (auto simp: mini_parse_source_def MiniParser_parse_def MiniParser_parse_loop_fuel
      split: sum.splits)

text \<open>
  Claim C1 fails on the code. The script \<^verbatim>\<open>a()\<close>, \<^verbatim>\<open>  b()\<close>, \<^verbatim>\<open>c()\<close> (three lines, the
  second indented) is lexed by both lexers into a well-nested token list with an
  \<^verbatim>\<open>INDENT\<close> and a \<^verbatim>\<open>DEDENT\<close> at statement position. \<^verbatim>\<open>parseStatement\<close> skips the
  \<^verbatim>\<open>INDENT\<close> but neither consumes the \<^verbatim>\<open>DEDENT\<close> nor returns a statement, and the loop of
  \<^verbatim>\<open>parse()\<close> only stops at \<^verbatim>\<open>EOF\<close>: with any amount of fuel the parse has not returned.
\<close>

theorem C1_stray_indent_never_parsed:
  "(\<exists>ts. Lexer_tokenize (''a()'' @ nl @ ''  b()'' @ nl @ ''c()'') = Inr ts \<and> well_nested ts)
   \<and> parseScript n (''a()'' @ nl @ ''  b()'' @ nl @ ''c()'') = None
   \<and> (\<exists>ts. MiniLexer_tokenize (''a()'' @ nl @ ''  b()'' @ nl @ ''c()'') = Inr ts \<and> well_nested ts)
   \<and> mini_parse_source n (''a()'' @ nl @ ''  b()'' @ nl @ ''c()'') = None"
proof (intro conjI)
  let ?src = "''a()'' @ nl @ ''  b()'' @ nl @ ''c()''"
  from Lexer_tokenize_returns [of ?src] finish_well_nested
  show "\<exists>ts. Lexer_tokenize ?src = Inr ts \<and> well_nested ts"
    by blast
  show "parseScript n ?src = None"
  proof (cases "parseScript n ?src")
    case (Some r)
    from parseScript_fuel [OF this, of 10] parse_stray_indent_enough_fuel [of n] show ?thesis
      by simp
  qed simp
  obtain l where "MiniLexer_loop (new_lexer ?src) = Inr l" and ts: "MiniLexer_tokenize ?src = Inr (finish l)"
    using mini_tokens_stray_indent
    by (auto simp: MiniLexer_tokenize_def split: sum.splits)
  from MiniLexer_loop_nested [OF nested_new_lexer this(1)] ts finish_well_nested
  show "\<exists>ts. MiniLexer_tokenize ?src = Inr ts \<and> well_nested ts"
    by blast
  show "mini_parse_source n ?src = None"
  proof (cases "mini_parse_source n ?src")
    case (Some r)
    from mini_parse_source_fuel [OF this, of 10] mini_parse_stray_indent_enough_fuel [of n]
    show ?thesis
      by simp
  qed simp
qed

subsection \<open>The count of a loop\<close>

lemma MiniLexer_readNumber_integral:
  "\<exists>i. tvalue (fst (MiniLexer_readNumber l)) = NumValue (of_int i)"
  by (auto simp: MiniLexer_readNumber_def Let_def mk_token_def split: prod.splits)

lemma tokens_negative_repeat:
  "Lexer_tokenize (''repeat(-2.5):'' @ nl @ ''    move_right()'') = Inr
   [mk_token REPEAT (StrValue ''repeat'') 1 1, mk_token LPAREN NoValue 1 7,
    mk_token NUMBER (NumValue (- 5 / 2)) 1 8, mk_token RPAREN NoValue 1 12,
    mk_token COLON NoValue 1 13, mk_token NEWLINE NoValue 1 14, mk_token INDENT NoValue 2 1,
    mk_token IDENTIFIER (StrValue ''move_right'') 2 5, mk_token LPAREN NoValue 2 15,
    mk_token RPAREN NoValue 2 16, mk_token DEDENT NoValue 2 17, mk_token EOF NoValue 2 17]"
  by code_simp

text \<open>
  The claim as stated fails: \<^verbatim>\<open>repeat(-2.5):\<close> stores \<open>- 3\<close>, the floor, where truncation
  toward zero gives \<open>- 2\<close>.
\<close>

theorem C5_negative_count_counterexample:
  "parseScript 10 (''repeat(-2.5):'' @ nl @ ''    move_right()'')
     = Some (Inr (Program [Repeat (- 3) [Call ''move_right'' [] 2] 1]))
   \<and> truncated (- 5 / 2) = - 2"
proof
  have "parseScript (0 + 10) (''repeat(-2.5):'' @ nl @ ''    move_right()'')
      = Some (Inr (Program [Repeat (- 3) [Call ''move_right'' [] 2] 1]))"
    unfolding parseScript_def tokens_negative_repeat fuel_plus_10
    by (simp add: Parser_parse_def parser_defs floor_eq_iff)
  then show "parseScript 10 (''repeat(-2.5):'' @ nl @ ''    move_right()'')
      = Some (Inr (Program [Repeat (- 3) [Call ''move_right'' [] 2] 1]))"
    by simp
  show "truncated (- 5 / 2) = - 2"
    by (simp add: truncated_def ceiling_eq_iff)
qed

lemma repeat_count_floored:
  "ttype lparen = LPAREN \<longrightarrow>
      (ttype countToken \<noteq> NUMBER \<longrightarrow>
         Parser_parseRepeat (Suc n) (repeatToken # lparen # countToken # others)
           = Some (Inl (Expected ''Expected number in repeat'' countToken)))
      \<and> (\<forall>stmt ts. Parser_parseRepeat (Suc n) (repeatToken # lparen # countToken # others)
             = Some (Inr (stmt, ts)) \<longrightarrow>
           ttype countToken = NUMBER
           \<and> (\<exists>body. stmt = Repeat \<lfloor>num_of (tvalue countToken)\<rfloor> body (tline repeatToken)))"
  by (auto simp: parser_defs Let_def split: if_splits option.splits sum.splits)

lemma for_count_stored:
  "ttype varToken = IDENTIFIER \<and> ttype inToken = IN \<and> ttype rangeToken = RANGE
        \<and> ttype lparen = LPAREN \<longrightarrow>
      (ttype countToken \<noteq> NUMBER \<longrightarrow>
         MiniParser_parseForLoop (Suc n)
             (forToken # varToken # inToken # rangeToken # lparen # countToken # others)
           = Some (Inl (Expected ''Expected number in range()'' countToken)))
      \<and> (\<forall>stmt ts. MiniParser_parseForLoop (Suc n)
               (forToken # varToken # inToken # rangeToken # lparen # countToken # others)
             = Some (Inr (stmt, ts)) \<longrightarrow>
           ttype countToken = NUMBER
           \<and> (\<exists>body. stmt = ForLoop (str_of (tvalue varToken)) (num_of (tvalue countToken)) body
                 (tline forToken)))"
  by (auto simp: parser_defs Let_def split: if_splits option.splits sum.splits)

lemma floor_truncated: "0 \<le> r \<longrightarrow> \<lfloor>r\<rfloor> = truncated r"
  by (simp add: truncated_def)

text \<open>
  Claim C5, as amended. \<^verbatim>\<open>parseRepeat\<close> stores the floor of the \<^verbatim>\<open>NUMBER\<close> token's value
  (for a value that is not negative this is the value truncated toward zero);
  \<^verbatim>\<open>parseForLoop\<close> stores the value unchanged, and the mini-game lexer only makes
  integer \<^verbatim>\<open>NUMBER\<close> tokens. A token of another type in the count position is a
  \<^verbatim>\<open>SyntaxError\<close> naming that token.
\<close>

theorem C5_count_is_floored:
  "(ttype lparen = LPAREN \<longrightarrow>
      (ttype countToken \<noteq> NUMBER \<longrightarrow>
         Parser_parseRepeat (Suc n) (repeatToken # lparen # countToken # others)
           = Some (Inl (Expected ''Expected number in repeat'' countToken)))
      \<and> (\<forall>stmt ts. Parser_parseRepeat (Suc n) (repeatToken # lparen # countToken # others)
             = Some (Inr (stmt, ts)) \<longrightarrow>
           ttype countToken = NUMBER
           \<and> (\<exists>body. stmt = Repeat \<lfloor>num_of (tvalue countToken)\<rfloor> body (tline repeatToken))))
   \<and> (ttype varToken = IDENTIFIER \<and> ttype inToken = IN \<and> ttype rangeToken = RANGE
        \<and> ttype lparen = LPAREN \<longrightarrow>
      (ttype countToken \<noteq> NUMBER \<longrightarrow>
         MiniParser_parseForLoop (Suc n)
             (forToken # varToken # inToken # rangeToken # lparen # countToken # others)
           = Some (Inl (Expected ''Expected number in range()'' countToken)))
      \<and> (\<forall>stmt ts. MiniParser_parseForLoop (Suc n)
               (forToken # varToken # inToken # rangeToken # lparen # countToken # others)
             = Some (Inr (stmt, ts)) \<longrightarrow>
           ttype countToken = NUMBER
           \<and> (\<exists>body. stmt = ForLoop (str_of (tvalue varToken)) (num_of (tvalue countToken)) body
                 (tline forToken))))
   \<and> (\<exists>i. tvalue (fst (MiniLexer_readNumber l)) = NumValue (of_int i))
   \<and> (0 \<le> r \<longrightarrow> \<lfloor>r\<rfloor> = truncated r)"
  by (rule conjI [OF repeat_count_floored
        conjI [OF for_count_stored conjI [OF MiniLexer_readNumber_integral floor_truncated]]])

theorem C5_count_is_floored_witness:
  "ttype (mk_token LPAREN NoValue 1 7) = LPAREN
   \<and> ttype (mk_token IDENTIFIER (StrValue ''n'') 1 8) \<noteq> NUMBER
   \<and> Parser_parseRepeat (Suc 9)
        [mk_token REPEAT (StrValue ''repeat'') 1 1, mk_token LPAREN NoValue 1 7,
         mk_token IDENTIFIER (StrValue ''n'') 1 8, mk_token RPAREN NoValue 1 9,
         mk_token COLON NoValue 1 10]
       = Some (Inl (Expected ''Expected number in repeat''
           (mk_token IDENTIFIER (StrValue ''n'') 1 8)))
   \<and> Parser_parseRepeat (Suc 9)
        [mk_token REPEAT (StrValue ''repeat'') 1 1, mk_token LPAREN NoValue 1 7,
         mk_token NUMBER (NumValue (31 / 8)) 1 8, mk_token RPAREN NoValue 1 13,
         mk_token COLON NoValue 1 14, mk_token NEWLINE NoValue 1 15, mk_token INDENT NoValue 2 1,
         mk_token IDENTIFIER (StrValue ''a'') 2 3, mk_token LPAREN NoValue 2 4,
         mk_token RPAREN NoValue 2 5, mk_token DEDENT NoValue 2 6, mk_token EOF NoValue 2 6]
       = Some (Inr (Repeat 3 [Call ''a'' [] 2] 1, [mk_token EOF NoValue 2 6]))
   \<and> \<lfloor>num_of (tvalue (mk_token NUMBER (NumValue (31 / 8)) 1 8))\<rfloor> = 3
   \<and> ttype (mk_token IDENTIFIER (StrValue ''i'') 1 5) = IDENTIFIER
   \<and> ttype (mk_token IN (StrValue ''in'') 1 7) = IN
   \<and> ttype (mk_token RANGE (StrValue ''range'') 1 10) = RANGE
   \<and> MiniParser_parseForLoop (Suc 9)
        [mk_token FOR (StrValue ''for'') 1 1, mk_token IDENTIFIER (StrValue ''i'') 1 5,
         mk_token IN (StrValue ''in'') 1 7, mk_token RANGE (StrValue ''range'') 1 10,
         mk_token LPAREN NoValue 1 7, mk_token IDENTIFIER (StrValue ''n'') 1 8,
         mk_token RPAREN NoValue 1 9, mk_token COLON NoValue 1 10]
       = Some (Inl (Expected ''Expected number in range()''
           (mk_token IDENTIFIER (StrValue ''n'') 1 8)))
   \<and> (0::rat) \<le> 31 / 8 \<and> \<lfloor>31 / 8 :: rat\<rfloor> = truncated (31 / 8)"
proof -
  let ?lparen = "mk_token LPAREN NoValue 1 7"
  let ?name = "mk_token IDENTIFIER (StrValue ''n'') 1 8"
  let ?number = "mk_token NUMBER (NumValue (31 / 8)) 1 8"
  let ?repeat = "mk_token REPEAT (StrValue ''repeat'') 1 1"
  let ?block = "[mk_token RPAREN NoValue 1 13,
         mk_token COLON NoValue 1 14, mk_token NEWLINE NoValue 1 15, mk_token INDENT NoValue 2 1,
         mk_token IDENTIFIER (StrValue ''a'') 2 3, mk_token LPAREN NoValue 2 4,
         mk_token RPAREN NoValue 2 5, mk_token DEDENT NoValue 2 6, mk_token EOF NoValue 2 6]"
  have h1: "ttype ?lparen = LPAREN" and h2: "ttype ?name \<noteq> NUMBER"
    and h4: "ttype (mk_token IDENTIFIER (StrValue ''i'') 1 5) = IDENTIFIER"
    and h5: "ttype (mk_token IN (StrValue ''in'') 1 7) = IN"
    and h6: "ttype (mk_token RANGE (StrValue ''range'') 1 10) = RANGE"
    by (simp_all add: mk_token_def)
  have h3: "(0::rat) \<le> 31 / 8"
    by simp
  note failing = C5_count_is_floored [where lparen = ?lparen and countToken = ?name and n = 9
      and repeatToken = ?repeat
      and others = "[mk_token RPAREN NoValue 1 9, mk_token COLON NoValue 1 10]"
      and forToken = "mk_token FOR (StrValue ''for'') 1 1"
      and varToken = "mk_token IDENTIFIER (StrValue ''i'') 1 5"
      and inToken = "mk_token IN (StrValue ''in'') 1 7"
      and rangeToken = "mk_token RANGE (StrValue ''range'') 1 10" and r = "31 / 8"]
  have a: "Parser_parseRepeat (Suc 9)
      [?repeat, ?lparen, ?name, mk_token RPAREN NoValue 1 9, mk_token COLON NoValue 1 10]
      = Some (Inl (Expected ''Expected number in repeat'' ?name))"
    by (rule failing [THEN conjunct1, THEN mp, OF h1, THEN conjunct1, THEN mp, OF h2])
  have b: "MiniParser_parseForLoop (Suc 9)
      [mk_token FOR (StrValue ''for'') 1 1, mk_token IDENTIFIER (StrValue ''i'') 1 5,
       mk_token IN (StrValue ''in'') 1 7, mk_token RANGE (StrValue ''range'') 1 10,
       ?lparen, ?name, mk_token RPAREN NoValue 1 9, mk_token COLON NoValue 1 10]
      = Some (Inl (Expected ''Expected number in range()'' ?name))"
    by (rule failing [THEN conjunct2, THEN conjunct1, THEN mp,
          OF conjI [OF h4 conjI [OF h5 conjI [OF h6 h1]]], THEN conjunct1, THEN mp, OF h2])
  have c: "\<lfloor>31 / 8 :: rat\<rfloor> = truncated (31 / 8)"
    by (rule failing [THEN conjunct2, THEN conjunct2, THEN conjunct2, THEN mp, OF h3])
  have run: "Parser_parseRepeat (Suc 9) (?repeat # ?lparen # ?number # ?block)
      = Some (Inr (Repeat 3 [Call ''a'' [] 2] 1, [mk_token EOF NoValue 2 6]))"
    by code_simp
  note returning = C5_count_is_floored [where lparen = ?lparen and countToken = ?number and n = 9
      and repeatToken = ?repeat and others = ?block]
  have "\<exists>body. Repeat 3 [Call ''a'' [] 2] 1
      = Repeat \<lfloor>num_of (tvalue ?number)\<rfloor> body (tline ?repeat)"
    by (rule returning [THEN conjunct1, THEN mp, OF h1, THEN conjunct2, THEN spec, THEN spec,
          THEN mp, OF run, THEN conjunct2])
  then have d: "\<lfloor>num_of (tvalue ?number)\<rfloor> = 3"
    by simp
  from h1 h2 a run d h4 h5 h6 b h3 c show ?thesis
    by (intro conjI)
qed

subsection \<open>An if without its block\<close>

lemma Parser_if_without_block:
  assumes "ttype ifToken = IF" and "ttype colon = COLON"
    and "peek_type (skipNewlines afterColon) \<noteq> INDENT"
    and "Parser_parseCondition n afterIf = Some (Inr (condition, colon # afterColon))"
  shows "Parser_parseIf (Suc n) (ifToken # afterIf)
           = Some (Inl (ExpectedBlock ''if'' (tline ifToken)))"
    and "Parser_parse_loop (n + 3) statements (ifToken # afterIf)
           = Some (Inl (ExpectedBlock ''if'' (tline ifToken)))"
    and "Parser_block_loop (n + 3) statements (ifToken # afterIf)
           = Some (Inl (ExpectedBlock ''if'' (tline ifToken)))"
proof -
  show parseIf: "Parser_parseIf (Suc n) (ifToken # afterIf)
      = Some (Inl (ExpectedBlock ''if'' (tline ifToken)))"
    using assms by (simp add: parser_defs Let_def)
  from Parser_fuel_Suc [of "Suc n"] have "grows (Parser_parseIf (Suc n) (ifToken # afterIf))
      (Parser_parseIf (Suc (Suc n)) (ifToken # afterIf))"
    by blast
  from grows_Some [OF this parseIf] assms(1)
  have stmt: "Parser_parseStatement (Suc (Suc (Suc n))) (ifToken # afterIf)
      = Some (Inl (ExpectedBlock ''if'' (tline ifToken)))"
    by (simp add: parser_defs)
  have three: "n + 3 = Suc (Suc (Suc n))"
    by simp
  from Parser_fuel_Suc [of "Suc (Suc n)"]
  have "grows (Parser_parseStatement (Suc (Suc n)) (ifToken # afterIf))
      (Parser_parseStatement (Suc (Suc (Suc n))) (ifToken # afterIf))"
    by blast
  from assms(1) parseIf
  have stmt: "Parser_parseStatement (Suc (Suc n)) (ifToken # afterIf)
      = Some (Inl (ExpectedBlock ''if'' (tline ifToken)))"
    by (simp add: parser_defs)
  with assms(1) show "Parser_parse_loop (n + 3) statements (ifToken # afterIf)
      = Some (Inl (ExpectedBlock ''if'' (tline ifToken)))"
    unfolding three by (simp add: parser_defs)
  from stmt assms(1) show "Parser_block_loop (n + 3) statements (ifToken # afterIf)
      = Some (Inl (ExpectedBlock ''if'' (tline ifToken)))"
    unfolding three by (simp add: parser_defs)
qed

lemma MiniParser_if_without_block:
  assumes "ttype ifToken = IF" and "ttype colon = COLON"
    and "peek_type (skipNewlines afterColon) \<noteq> INDENT"
    and "MiniParser_parseCondition n afterIf = Some (Inr (condition, colon # afterColon))"
  shows "MiniParser_parseIfStatement (Suc n) (ifToken # afterIf)
           = Some (Inl (ExpectedBlock ''if'' (tline ifToken)))"
    and "MiniParser_parse_loop (n + 3) statements (ifToken # afterIf)
           = Some (Inl (ExpectedBlock ''if'' (tline ifToken)))"
    and "MiniParser_block_loop (n + 3) statements (ifToken # afterIf)
           = Some (Inl (ExpectedBlock ''if'' (tline ifToken)))"
proof -
  show parseIf: "MiniParser_parseIfStatement (Suc n) (ifToken # afterIf)
      = Some (Inl (ExpectedBlock ''if'' (tline ifToken)))"
    using assms by (simp add: parser_defs Let_def)
  have three: "n + 3 = Suc (Suc (Suc n))"
    by simp
  from assms(1) parseIf
  have stmt: "MiniParser_parseStatement (Suc (Suc n)) (ifToken # afterIf)
      = Some (Inl (ExpectedBlock ''if'' (tline ifToken)))"
    by (simp add: parser_defs)
  with assms(1) show "MiniParser_parse_loop (n + 3) statements (ifToken # afterIf)
      = Some (Inl (ExpectedBlock ''if'' (tline ifToken)))"
    unfolding three by (simp add: parser_defs)
  from stmt assms(1) show "MiniParser_block_loop (n + 3) statements (ifToken # afterIf)
      = Some (Inl (ExpectedBlock ''if'' (tline ifToken)))"
    unfolding three by (simp add: parser_defs)
qed

text \<open>
  Claim C8. When the tokens at the cursor are an \<^verbatim>\<open>if\<close>, a condition that parses, a
  colon and then, after any newlines, something that is no \<^verbatim>\<open>INDENT\<close>, then \<^verbatim>\<open>parseIf\<close>
  throws the \<^verbatim>\<open>SyntaxError\<close> ``Expected indented block after if at line \<open>l\<close>'' with
  \<open>l\<close> the line of the \<^verbatim>\<open>if\<close> token; the error leaves the loop of \<^verbatim>\<open>parse()\<close> and the
  loop of \<^verbatim>\<open>parseBlock\<close>, and with no amount of fuel does \<^verbatim>\<open>parse()\<close> return a program.
  The same holds in the mini-game parser.
\<close>

theorem C8_if_without_indented_block:
  assumes "ttype ifToken = IF" and "ttype colon = COLON"
    and "peek_type (skipNewlines afterColon) \<noteq> INDENT"
  shows "(Parser_parseCondition n afterIf = Some (Inr (condition, colon # afterColon)) \<longrightarrow>
            Parser_parseIf (Suc n) (ifToken # afterIf)
              = Some (Inl (ExpectedBlock ''if'' (tline ifToken)))
            \<and> Parser_parse_loop (n + 3) statements (ifToken # afterIf)
              = Some (Inl (ExpectedBlock ''if'' (tline ifToken)))
            \<and> Parser_block_loop (n + 3) statements (ifToken # afterIf)
              = Some (Inl (ExpectedBlock ''if'' (tline ifToken)))
            \<and> (\<forall>k program. Parser_parse_loop k statements (ifToken # afterIf)
                  \<noteq> Some (Inr program)))
         \<and> (MiniParser_parseCondition n afterIf = Some (Inr (condition, colon # afterColon)) \<longrightarrow>
            MiniParser_parseIfStatement (Suc n) (ifToken # afterIf)
              = Some (Inl (ExpectedBlock ''if'' (tline ifToken)))
            \<and> MiniParser_parse_loop (n + 3) statements (ifToken # afterIf)
              = Some (Inl (ExpectedBlock ''if'' (tline ifToken)))
            \<and> MiniParser_block_loop (n + 3) statements (ifToken # afterIf)
              = Some (Inl (ExpectedBlock ''if'' (tline ifToken)))
            \<and> (\<forall>k program. MiniParser_parse_loop k statements (ifToken # afterIf)
                  \<noteq> Some (Inr program)))"
proof (rule conjI; rule impI)
  assume c: "Parser_parseCondition n afterIf = Some (Inr (condition, colon # afterColon))"
  note r = Parser_if_without_block [OF assms c]
  have "Parser_parse_loop k statements (ifToken # afterIf) \<noteq> Some (Inr program)" for k program
    using Parser_parse_loop_agree [OF r(2) [of statements], of k "Inr program"] by auto
  with r show "Parser_parseIf (Suc n) (ifToken # afterIf)
              = Some (Inl (ExpectedBlock ''if'' (tline ifToken)))
            \<and> Parser_parse_loop (n + 3) statements (ifToken # afterIf)
              = Some (Inl (ExpectedBlock ''if'' (tline ifToken)))
            \<and> Parser_block_loop (n + 3) statements (ifToken # afterIf)
              = Some (Inl (ExpectedBlock ''if'' (tline ifToken)))
            \<and> (\<forall>k program. Parser_parse_loop k statements (ifToken # afterIf)
                  \<noteq> Some (Inr program))"
    by blast
next
  assume c: "MiniParser_parseCondition n afterIf = Some (Inr (condition, colon # afterColon))"
  note r = MiniParser_if_without_block [OF assms c]
  have "MiniParser_parse_loop k statements (ifToken # afterIf) \<noteq> Some (Inr program)" for k program
    using MiniParser_parse_loop_agree [OF r(2) [of statements], of k "Inr program"] by auto
  with r show "MiniParser_parseIfStatement (Suc n) (ifToken # afterIf)
              = Some (Inl (ExpectedBlock ''if'' (tline ifToken)))
            \<and> MiniParser_parse_loop (n + 3) statements (ifToken # afterIf)
              = Some (Inl (ExpectedBlock ''if'' (tline ifToken)))
            \<and> MiniParser_block_loop (n + 3) statements (ifToken # afterIf)
              = Some (Inl (ExpectedBlock ''if'' (tline ifToken)))
            \<and> (\<forall>k program. MiniParser_parse_loop k statements (ifToken # afterIf)
                  \<noteq> Some (Inr program))"
    by blast
qed

theorem C8_if_without_indented_block_witness:
  "ttype (mk_token IF (StrValue ''if'') 1 1) = IF
   \<and> ttype (mk_token COLON NoValue 1 7) = COLON
   \<and> peek_type (skipNewlines
        [mk_token NEWLINE NoValue 1 8, mk_token IDENTIFIER (StrValue ''b'') 2 1,
         mk_token LPAREN NoValue 2 2, mk_token RPAREN NoValue 2 3, mk_token EOF NoValue 2 4])
       \<noteq> INDENT
   \<and> Parser_parseCondition 3
        [mk_token IDENTIFIER (StrValue ''a'') 1 4, mk_token LPAREN NoValue 1 5,
         mk_token RPAREN NoValue 1 6, mk_token COLON NoValue 1 7,
         mk_token NEWLINE NoValue 1 8, mk_token IDENTIFIER (StrValue ''b'') 2 1,
         mk_token LPAREN NoValue 2 2, mk_token RPAREN NoValue 2 3, mk_token EOF NoValue 2 4]
       = Some (Inr (Call ''a'' [] 1,
           [mk_token COLON NoValue 1 7,
            mk_token NEWLINE NoValue 1 8, mk_token IDENTIFIER (StrValue ''b'') 2 1,
            mk_token LPAREN NoValue 2 2, mk_token RPAREN NoValue 2 3, mk_token EOF NoValue 2 4]))
   \<and> MiniParser_parseCondition 3
        [mk_token IDENTIFIER (StrValue ''a'') 1 4, mk_token LPAREN NoValue 1 5,
         mk_token RPAREN NoValue 1 6, mk_token COLON NoValue 1 7,
         mk_token NEWLINE NoValue 1 8, mk_token IDENTIFIER (StrValue ''b'') 2 1,
         mk_token LPAREN NoValue 2 2, mk_token RPAREN NoValue 2 3, mk_token EOF NoValue 2 4]
       = Some (Inr (Call ''a'' [] 1,
           [mk_token COLON NoValue 1 7,
            mk_token NEWLINE NoValue 1 8, mk_token IDENTIFIER (StrValue ''b'') 2 1,
            mk_token LPAREN NoValue 2 2, mk_token RPAREN NoValue 2 3, mk_token EOF NoValue 2 4]))
   \<and> Parser_parse 6
        [mk_token IF (StrValue ''if'') 1 1,
         mk_token IDENTIFIER (StrValue ''a'') 1 4, mk_token LPAREN NoValue 1 5,
         mk_token RPAREN NoValue 1 6, mk_token COLON NoValue 1 7,
         mk_token NEWLINE NoValue 1 8, mk_token IDENTIFIER (StrValue ''b'') 2 1,
         mk_token LPAREN NoValue 2 2, mk_token RPAREN NoValue 2 3, mk_token EOF NoValue 2 4]
       = Some (Inl (ExpectedBlock ''if'' 1))
   \<and> MiniParser_parse 6
        [mk_token IF (StrValue ''if'') 1 1,
         mk_token IDENTIFIER (StrValue ''a'') 1 4, mk_token LPAREN NoValue 1 5,
         mk_token RPAREN NoValue 1 6, mk_token COLON NoValue 1 7,
         mk_token NEWLINE NoValue 1 8, mk_token IDENTIFIER (StrValue ''b'') 2 1,
         mk_token LPAREN NoValue 2 2, mk_token RPAREN NoValue 2 3, mk_token EOF NoValue 2 4]
       = Some (Inl (ExpectedBlock ''if'' 1))"
proof -
  let ?if = "mk_token IF (StrValue ''if'') 1 1"
  let ?colon = "mk_token COLON NoValue 1 7"
  let ?afterColon = "[mk_token NEWLINE NoValue 1 8, mk_token IDENTIFIER (StrValue ''b'') 2 1,
         mk_token LPAREN NoValue 2 2, mk_token RPAREN NoValue 2 3, mk_token EOF NoValue 2 4]"
  let ?afterIf = "mk_token IDENTIFIER (StrValue ''a'') 1 4 # mk_token LPAREN NoValue 1 5 #
         mk_token RPAREN NoValue 1 6 # ?colon # ?afterColon"
  have h1: "ttype ?if = IF" and h2: "ttype ?colon = COLON"
    by (simp_all add: mk_token_def)
  have h3: "peek_type (skipNewlines ?afterColon) \<noteq> INDENT"
    by (simp add: parser_defs)
  have three: "(3::nat) = Suc (Suc (Suc 0))"
    by simp
  have h4: "Parser_parseCondition 3 ?afterIf = Some (Inr (Call ''a'' [] 1, ?colon # ?afterColon))"
    unfolding three by (simp add: parser_defs)
  have h5: "MiniParser_parseCondition 3 ?afterIf = Some (Inr (Call ''a'' [] 1, ?colon # ?afterColon))"
    unfolding three
    by (simp add: MiniParser_parseCondition_def MiniParser_parseCallWithParens_def parser_defs)
  note c8 = C8_if_without_indented_block [OF h1 h2 h3, where n = 3 and afterIf = ?afterIf
      and condition = "Call ''a'' [] 1" and statements = "[]"]
  from c8 h4 have "Parser_parse_loop (3 + 3) [] (?if # ?afterIf) = Some (Inl (ExpectedBlock ''if'' (tline ?if)))"
    by blast
  then have p: "Parser_parse 6 (?if # ?afterIf) = Some (Inl (ExpectedBlock ''if'' 1))"
    by (simp add: Parser_parse_def mk_token_def)
  from c8 h5 have "MiniParser_parse_loop (3 + 3) [] (?if # ?afterIf)
      = Some (Inl (ExpectedBlock ''if'' (tline ?if)))"
    by blast
  then have q: "MiniParser_parse 6 (?if # ?afterIf) = Some (Inl (ExpectedBlock ''if'' 1))"
    by (simp add: MiniParser_parse_def mk_token_def)
  from h1 h2 h3 h4 h5 p q show ?thesis
    by (intro conjI)
qed

section \<open>Properties of the executors\<close>

lemma Executor_body_append:
  "Executor_body cmds (xs @ ys) w =
     (case Executor_body cmds xs w of
        (Inl e, w1) \<Rightarrow> (Inl e, w1)
      | (Inr u, w1) \<Rightarrow> Executor_body cmds ys w1)"
  by (induction xs arbitrary: w) (auto split: prod.splits sum.splits)

lemma MiniExecutor_body_stopped:
  "stopped w \<Longrightarrow> MiniExecutor_body cmds m ys w = (Inr (), w)"
  by (cases ys) simp_all

lemma MiniExecutor_body_append:
  "MiniExecutor_body cmds m (xs @ ys) w =
     (case MiniExecutor_body cmds m xs w of
        (Inl e, w1) \<Rightarrow> (Inl e, w1)
      | (Inr u, w1) \<Rightarrow> MiniExecutor_body cmds m ys w1)"
  by (induction xs arbitrary: w)
    (auto simp: MiniExecutor_body_stopped split: prod.splits sum.splits)

lemma undefined_call_reported:
  assumes "cmds name = None"
  shows "Executor_executeStatement cmds (Call name args li) w
           = (Inr VUndefined,
              w\<lparr>trace := trace w @ [Print (NameError name) ''error'', Print HelpHint ''system'']\<rparr>)"
  using assms by (simp add: Executor_executeCall_def print_def)

lemma undefined_call_program:
  assumes "cmds name = None"
  shows "Executor_execute cmds (Program (before @ Call name args li # after)) w
           = (case Executor_body cmds before w of
                (Inl e, w1) \<Rightarrow> (Inl e, w1)
              | (Inr u, w1) \<Rightarrow>
                  Executor_body cmds after
                    (w1\<lparr>trace := trace w1 @ [Print (NameError name) ''error'', Print HelpHint ''system'']\<rparr>))"
  using assms
  by (auto simp: Executor_execute_def Executor_body_append Executor_executeCall_def print_def
      split: prod.splits sum.splits)

lemma undefined_call_paced:
  assumes "cmds name = None"
  shows "Executor_paced cmds (Call name args li # after) w
           = Executor_paced cmds after
               (w\<lparr>trace := trace w @ [Print (NameError name) ''error'', Print HelpHint ''system'',
                   Delay executionDelay]\<rparr>)"
  using assms by (simp add: Executor_executeCall_def print_def delay_def)

lemma undefined_call_raised:
  assumes "cmds name = None" and "\<not> stopped w"
  shows "MiniExecutor_executeStatement cmds m (Call name args li) w = (Inl (UnknownCommand name), w)"
  using assms by (simp add: MiniExecutor_executeStatement.simps MiniExecutor_executeCall_def)

lemma undefined_call_ends_program:
  assumes "cmds name = None"
  shows "MiniExecutor_execute cmds m (Program (before @ Call name args li # after)) w
           = (case MiniExecutor_body cmds m before (reset w) of
                (Inl e, w1) \<Rightarrow> (Inl e, w1)
              | (Inr u, w1) \<Rightarrow>
                  if stopped w1 then (Inr (), w1) else (Inl (UnknownCommand name), w1))"
  using assms
  by (auto simp: MiniExecutor_execute_def MiniExecutor_body_append
      MiniExecutor_executeStatement.simps MiniExecutor_executeCall_def
      split: prod.splits sum.splits)

lemma name_errors_append [simp]:
  "name_errors (xs @ ys) = name_errors xs @ name_errors ys"
  by (simp add: name_errors_def)

lemma name_errors_simps [simp]:
  "name_errors [] = []"
  "name_errors (Invoke n vs # evs) = name_errors evs"
  "name_errors (Delay ms # evs) = name_errors evs"
  "name_errors (Print (NameError n) ch # evs) = n # name_errors evs"
  "name_errors (Print HelpHint ch # evs) = name_errors evs"
  "name_errors (Print (ErrorMessage msg) ch # evs) = name_errors evs"
  by (simp_all add: name_errors_def)

lemma Executor_arguments_report_nothing:
  "name_errors (trace (snd (Executor_evaluateArgument cmds a w))) = name_errors (trace w)"
  "name_errors (trace (snd (Executor_executeCallSync cmds name args w))) = name_errors (trace w)"
  "name_errors (trace (snd (Executor_evaluate_arguments cmds args w))) = name_errors (trace w)"
proof (induction cmds a w and cmds name args w and cmds args w
    rule: Executor_evaluateArgument_Executor_executeCallSync_Executor_evaluate_arguments.induct)
  case (6 cmds name args w)
  then show ?case
    by (auto simp: invoke_def split: option.splits prod.splits sum.splits)
next
  case (8 cmds arg args w)
  then show ?case
    by (auto split: prod.splits sum.splits)
qed simp_all

lemma defined_call_not_reported:
  assumes "cmds name \<noteq> None"
  shows "name_errors (trace (snd (Executor_executeStatement cmds (Call name args li) w)))
           = name_errors (trace w)"
proof -
  from assms obtain c where c: "cmds name = Some c"
    by auto
  obtain r w1 where a: "Executor_evaluate_arguments cmds args w = (r, w1)"
    by (cases "Executor_evaluate_arguments cmds args w")
  from Executor_arguments_report_nothing(3) [of cmds args w] a
  have "name_errors (trace w1) = name_errors (trace w)"
    by simp
  with c a show ?thesis
    by (auto simp: Executor_executeCall_def invoke_def print_def split: prod.splits sum.splits)
qed

lemma unknown_command_is_undefined:
  "fst (MiniExecutor_evaluateArgument cmds a w) = Inl (UnknownCommand n) \<longrightarrow> cmds n = None"
  "fst (MiniExecutor_executeCallSync cmds name args w) = Inl (UnknownCommand n) \<longrightarrow> cmds n = None"
  "fst (MiniExecutor_evaluate_arguments cmds args w) = Inl (UnknownCommand n) \<longrightarrow> cmds n = None"
proof (induction cmds a w and cmds name args w and cmds args w
    rule: MiniExecutor_evaluateArgument_MiniExecutor_executeCallSync_MiniExecutor_evaluate_arguments.induct)
  case (5 cmds name args w)
  then show ?case
    by (auto simp: invoke_def split: option.splits prod.splits sum.splits)
next
  case (7 cmds arg args w)
  then show ?case
    by (auto split: prod.splits sum.splits)
qed simp_all

lemma defined_call_not_unknown:
  assumes "cmds name \<noteq> None"
  shows "fst (MiniExecutor_executeStatement cmds m (Call name args li) w)
           \<noteq> Inl (UnknownCommand name)"
proof -
  from assms obtain c where c: "cmds name = Some c"
    by auto
  obtain r w1 where a: "MiniExecutor_evaluate_arguments cmds args w = (r, w1)"
    by (cases "MiniExecutor_evaluate_arguments cmds args w")
  from unknown_command_is_undefined(3) [of cmds args w name] a assms
  have "r \<noteq> Inl (UnknownCommand name)"
    by auto
  with c a show ?thesis
    by (auto simp: MiniExecutor_executeStatement.simps MiniExecutor_executeCall_def
        split: prod.splits sum.splits)
qed

text \<open>
  Claim C4, as amended. Take a statement-position call of a name for which
  \<^verbatim>\<open>this.commands[name]\<close> is falsy: a name that is neither a member of the table nor
  inherited by it. The script executor does not raise: it gives the output sink the name
  error and the help hint, the call yields \<^verbatim>\<open>undefined\<close>, and the statements after it run,
  at program level and in a paced body alike. The mini-game executor, unless it was
  stopped, throws \<^verbatim>\<open>Unknown command: ${name}\<close> and reports nothing; the error leaves
  \<^verbatim>\<open>execute\<close>, and no statement after the call runs. For any other name neither happens:
  the call in the script executor reports no name as not defined, and the call in the
  mini-game executor does not end in \<^verbatim>\<open>Unknown command: ${name}\<close>.
\<close>

theorem C4_call_of_undefined_name:
  "(cmds name = None \<longrightarrow>
      Executor_executeStatement cmds (Call name args li) w
        = (Inr VUndefined,
           w\<lparr>trace := trace w @ [Print (NameError name) ''error'', Print HelpHint ''system'']\<rparr>)
      \<and> Executor_execute cmds (Program (before @ Call name args li # after)) w
        = (case Executor_body cmds before w of
             (Inl e, w1) \<Rightarrow> (Inl e, w1)
           | (Inr u, w1) \<Rightarrow>
               Executor_body cmds after
                 (w1\<lparr>trace := trace w1 @ [Print (NameError name) ''error'', Print HelpHint ''system'']\<rparr>))
      \<and> Executor_paced cmds (Call name args li # after) w
        = Executor_paced cmds after
            (w\<lparr>trace := trace w @ [Print (NameError name) ''error'', Print HelpHint ''system'',
                Delay executionDelay]\<rparr>)
      \<and> (\<not> stopped w \<longrightarrow>
           MiniExecutor_executeStatement cmds m (Call name args li) w
             = (Inl (UnknownCommand name), w))
      \<and> MiniExecutor_execute cmds m (Program (before @ Call name args li # after)) w
        = (case MiniExecutor_body cmds m before (reset w) of
             (Inl e, w1) \<Rightarrow> (Inl e, w1)
           | (Inr u, w1) \<Rightarrow>
               if stopped w1 then (Inr (), w1) else (Inl (UnknownCommand name), w1)))
   \<and> (cmds name \<noteq> None \<longrightarrow>
      name_errors (trace (snd (Executor_executeStatement cmds (Call name args li) w)))
        = name_errors (trace w)
      \<and> fst (MiniExecutor_executeStatement cmds m (Call name args li) w)
        \<noteq> Inl (UnknownCommand name))"
proof (intro conjI impI)
  assume u: "cmds name = None"
  show "Executor_executeStatement cmds (Call name args li) w
        = (Inr VUndefined,
           w\<lparr>trace := trace w @ [Print (NameError name) ''error'', Print HelpHint ''system'']\<rparr>)"
    by (rule undefined_call_reported [where cmds = cmds and name = name, OF u])
  show "Executor_execute cmds (Program (before @ Call name args li # after)) w
        = (case Executor_body cmds before w of
             (Inl e, w1) \<Rightarrow> (Inl e, w1)
           | (Inr u, w1) \<Rightarrow>
               Executor_body cmds after
                 (w1\<lparr>trace := trace w1 @ [Print (NameError name) ''error'', Print HelpHint ''system'']\<rparr>))"
    by (rule undefined_call_program [where cmds = cmds and name = name, OF u])
  show "Executor_paced cmds (Call name args li # after) w
        = Executor_paced cmds after
            (w\<lparr>trace := trace w @ [Print (NameError name) ''error'', Print HelpHint ''system'',
                Delay executionDelay]\<rparr>)"
    by (rule undefined_call_paced [where cmds = cmds and name = name, OF u])
  show "MiniExecutor_execute cmds m (Program (before @ Call name args li # after)) w
        = (case MiniExecutor_body cmds m before (reset w) of
             (Inl e, w1) \<Rightarrow> (Inl e, w1)
           | (Inr u, w1) \<Rightarrow>
               if stopped w1 then (Inr (), w1) else (Inl (UnknownCommand name), w1))"
    by (rule undefined_call_ends_program [where cmds = cmds and name = name, OF u])
next
  assume "cmds name = None" and "\<not> stopped w"
  then show "MiniExecutor_executeStatement cmds m (Call name args li) w
      = (Inl (UnknownCommand name), w)"
    by (rule undefined_call_raised [where cmds = cmds and name = name])
next
  assume d: "cmds name \<noteq> None"
  show "name_errors (trace (snd (Executor_executeStatement cmds (Call name args li) w)))
      = name_errors (trace w)"
    by (rule defined_call_not_reported [where cmds = cmds and name = name, OF d])
  show "fst (MiniExecutor_executeStatement cmds m (Call name args li) w)
      \<noteq> Inl (UnknownCommand name)"
    by (rule defined_call_not_unknown [where cmds = cmds and name = name, OF d])
qed

theorem C4_call_of_undefined_name_witness:
  "\<forall>inherited.
     loop_game_commands inherited ''fly'' = None
     \<and> Executor_execute (loop_game_commands inherited)
          (Program [Call ''fly'' [] 1, Call ''move_right'' [] 2]) (start (new_puzzle 5))
         = (Inr (),
            \<lparr>host = (new_puzzle 5)\<lparr>snakeX := 1, moves := 1\<rparr>,
             trace = [Print (NameError ''fly'') ''error'', Print HelpHint ''system'',
                      Invoke ''move_right'' []],
             stopped = False\<rparr>)
     \<and> \<not> stopped (start (new_puzzle 5))
     \<and> MiniExecutor_executeStatement (loop_game_commands inherited) 100 (Call ''fly'' [] 1)
          (start (new_puzzle 5))
         = (Inl (UnknownCommand ''fly''), start (new_puzzle 5))
     \<and> loop_game_commands inherited ''toString'' \<noteq> None
     \<and> name_errors (trace (snd (Executor_executeStatement (loop_game_commands inherited)
          (Call ''toString'' [] 1) (start (new_puzzle 5))))) = []
     \<and> fst (MiniExecutor_executeStatement (loop_game_commands inherited) 100
          (Call ''toString'' [] 1) (start (new_puzzle 5)))
         \<noteq> Inl (UnknownCommand ''toString'')"
proof (intro allI conjI)
  fix inherited
  let ?cmds = "loop_game_commands inherited"
  let ?w = "start (new_puzzle 5)"
  show h: "?cmds ''fly'' = None"
    by (simp add: loop_game_commands_def Object_prototype_member_def)
  show ns: "\<not> stopped ?w"
    by (simp add: start_def)
  show d: "?cmds ''toString'' \<noteq> None"
    by (simp add: loop_game_commands_def Object_prototype_member_def)
  note undefined = C4_call_of_undefined_name [where cmds = ?cmds and name = "''fly''"
      and args = "[]" and li = 1 and w = ?w and before = "[]"
      and after = "[Call ''move_right'' [] 2]" and m = 100, THEN conjunct1, THEN mp, OF h]
  note defined = C4_call_of_undefined_name [where cmds = ?cmds and name = "''toString''"
      and args = "[]" and li = 1 and w = ?w and m = 100, THEN conjunct2, THEN mp, OF d]
  have "Executor_execute ?cmds (Program ([] @ Call ''fly'' [] 1 # [Call ''move_right'' [] 2])) ?w
      = Executor_body ?cmds [Call ''move_right'' [] 2]
          (?w\<lparr>trace := trace ?w
             @ [Print (NameError ''fly'') ''error'', Print HelpHint ''system'']\<rparr>)"
    using undefined [THEN conjunct2, THEN conjunct1] by simp
  also have "\<dots> = (Inr (),
          \<lparr>host = (new_puzzle 5)\<lparr>snakeX := 1, moves := 1\<rparr>,
           trace = [Print (NameError ''fly'') ''error'', Print HelpHint ''system'',
                    Invoke ''move_right'' []],
           stopped = False\<rparr>)"
    by (simp add: start_def Executor_executeCall_def loop_game_commands_def invoke_def
        movement_command_def moveRight_def canMoveRight_def new_puzzle_def)
  finally show "Executor_execute ?cmds (Program [Call ''fly'' [] 1, Call ''move_right'' [] 2]) ?w
      = (Inr (),
          \<lparr>host = (new_puzzle 5)\<lparr>snakeX := 1, moves := 1\<rparr>,
           trace = [Print (NameError ''fly'') ''error'', Print HelpHint ''system'',
                    Invoke ''move_right'' []],
           stopped = False\<rparr>)"
    by simp
  show "MiniExecutor_executeStatement ?cmds 100 (Call ''fly'' [] 1) ?w
      = (Inl (UnknownCommand ''fly''), ?w)"
    by (rule undefined [THEN conjunct2, THEN conjunct2, THEN conjunct2, THEN conjunct1, THEN mp,
          OF ns])
  have "trace ?w = []"
    by (simp add: start_def)
  with defined [THEN conjunct1]
  show "name_errors (trace (snd (Executor_executeStatement ?cmds (Call ''toString'' [] 1) ?w))) = []"
    by simp
  show "fst (MiniExecutor_executeStatement ?cmds 100 (Call ''toString'' [] 1) ?w)
      \<noteq> Inl (UnknownCommand ''toString'')"
    by (rule defined [THEN conjunct2])
qed

text \<open>
  The claim as stated fails twice on the game's own table. In the mini-game executor
  \<^verbatim>\<open>fly()\<close> throws \<^verbatim>\<open>Unknown command: fly\<close>: the error leaves \<^verbatim>\<open>execute\<close>, nothing reaches an
  output sink, and \<^verbatim>\<open>move_right()\<close> on the next line is never run. And \<^verbatim>\<open>toString\<close> is no
  member of the table, yet the table inherits it: the script executor calls it and prints
  no name error, the mini-game executor calls it and throws no \<^verbatim>\<open>Unknown command\<close>.
\<close>

theorem C4_raised_or_inherited_counterexample:
  "\<forall>inherited.
     loop_game_commands inherited ''fly'' = None
     \<and> MiniExecutor_execute (loop_game_commands inherited) 100
          (Program [Call ''fly'' [] 1, Call ''move_right'' [] 2]) (start (new_puzzle 5))
         = (Inl (UnknownCommand ''fly''), start (new_puzzle 5))
     \<and> loop_game_commands inherited ''toString'' = Some (inherited ''toString'')
     \<and> Print (NameError ''toString'') ''error''
         \<notin> set (trace (snd (Executor_execute (loop_game_commands inherited)
               (Program [Call ''toString'' [] 1]) (start (new_puzzle 5)))))
     \<and> invocations ''toString''
         (trace (snd (Executor_execute (loop_game_commands inherited)
               (Program [Call ''toString'' [] 1]) (start (new_puzzle 5))))) = 1
     \<and> fst (MiniExecutor_execute (loop_game_commands inherited) 100
               (Program [Call ''toString'' [] 1]) (start (new_puzzle 5)))
         \<noteq> Inl (UnknownCommand ''toString'')
     \<and> invocations ''toString''
         (trace (snd (MiniExecutor_execute (loop_game_commands inherited) 100
               (Program [Call ''toString'' [] 1]) (start (new_puzzle 5))))) = 1"
proof (intro allI conjI)
  fix inherited
  let ?cmds = "loop_game_commands inherited"
  let ?w = "start (new_puzzle 5)"
  show "?cmds ''fly'' = None"
    by (simp add: loop_game_commands_def Object_prototype_member_def)
  show "MiniExecutor_execute ?cmds 100 (Program [Call ''fly'' [] 1, Call ''move_right'' [] 2]) ?w
      = (Inl (UnknownCommand ''fly''), ?w)"
    by (simp add: MiniExecutor_execute_def reset_def start_def MiniExecutor_executeStatement.simps
        MiniExecutor_executeCall_def loop_game_commands_def Object_prototype_member_def)
  show t: "?cmds ''toString'' = Some (inherited ''toString'')"
    by (simp add: loop_game_commands_def Object_prototype_member_def)
  show "Print (NameError ''toString'') ''error''
      \<notin> set (trace (snd (Executor_execute ?cmds (Program [Call ''toString'' [] 1]) ?w)))"
    by (simp add: Executor_execute_def Executor_executeCall_def t invoke_def print_def start_def
        split: prod.splits sum.splits)
  show "invocations ''toString''
      (trace (snd (Executor_execute ?cmds (Program [Call ''toString'' [] 1]) ?w))) = 1"
    by (simp add: Executor_execute_def Executor_executeCall_def t invoke_def print_def start_def
        invocations_def split: prod.splits sum.splits)
  show "fst (MiniExecutor_execute ?cmds 100 (Program [Call ''toString'' [] 1]) ?w)
      \<noteq> Inl (UnknownCommand ''toString'')"
    by (simp add: MiniExecutor_execute_def reset_def start_def MiniExecutor_executeStatement.simps
        MiniExecutor_executeCall_def t invoke_def split: prod.splits sum.splits)
  show "invocations ''toString''
      (trace (snd (MiniExecutor_execute ?cmds 100 (Program [Call ''toString'' [] 1]) ?w))) = 1"
    by (simp add: MiniExecutor_execute_def reset_def start_def MiniExecutor_executeStatement.simps
        MiniExecutor_executeCall_def t invoke_def invocations_def split: prod.splits sum.splits)
qed

subsection \<open>A loop that never ends by itself\<close>

lemma invocations_append [simp]:
  "invocations name (xs @ ys) = invocations name xs + invocations name ys"
  by (simp add: invocations_def)

lemma invocations_simps [simp]:
  "invocations name [] = 0"
  "invocations name (Invoke n vs # evs) = (if n = name then 1 else 0) + invocations name evs"
  "invocations name (Print m ch # evs) = invocations name evs"
  "invocations name (Delay ms # evs) = invocations name evs"
  by (simp_all add: invocations_def)

lemma invoke_fields:
  "invoke name f vs w = (r, w1) \<Longrightarrow>
     r = fst (f vs (host w)) \<and> trace w1 = trace w @ [Invoke name vs] \<and> stopped w1 = stopped w"
  by (auto simp: invoke_def split: prod.splits)

lemma condition_true:
  assumes "always_returns_true cmds name"
  shows "\<exists>w1. MiniExecutor_evaluateCondition cmds (Call name [] li) w = (Inr (VBool True), w1)
           \<and> trace w1 = trace w @ [Invoke name []] \<and> stopped w1 = stopped w"
proof -
  from assms obtain c where c: "cmds name = Some c" and t: "\<And>args h. fst (c args h) = Inr (VBool True)"
    by (auto simp: always_returns_true_def)
  obtain r w1 where i: "invoke name c [] w = (r, w1)"
    by (cases "invoke name c [] w")
  from invoke_fields [OF i] t have r: "r = Inr (VBool True)"
    by simp
  from invoke_fields [OF i] have "trace w1 = trace w @ [Invoke name []]" "stopped w1 = stopped w"
    by simp_all
  with i c show ?thesis
    unfolding r by (simp add: MiniExecutor_evaluateCondition_def)
qed

lemma statement_call_returns:
  assumes "never_throws cmds name" and "\<not> stopped w"
  shows "\<exists>v w1. MiniExecutor_executeStatement cmds m (Call name [] li) w = (Inr v, w1)
           \<and> trace w1 = trace w @ [Invoke name []] \<and> \<not> stopped w1"
proof -
  from assms(1) obtain c where c: "cmds name = Some c" and t: "\<And>args h. \<exists>v. fst (c args h) = Inr v"
    by (auto simp: never_throws_def)
  obtain r w1 where i: "invoke name c [] w = (r, w1)"
    by (cases "invoke name c [] w")
  from invoke_fields [OF i] t obtain v where r: "r = Inr v"
    by auto
  from invoke_fields [OF i] have "trace w1 = trace w @ [Invoke name []]" "stopped w1 = stopped w"
    by simp_all
  with i c assms(2) show ?thesis
    unfolding r by (simp add: MiniExecutor_executeStatement.simps MiniExecutor_executeCall_def)
qed

lemma while_true_exceeds:
  assumes "always_returns_true cmds cname" and "never_throws cmds mname" and "cname \<noteq> mname"
    and "\<not> stopped w"
  shows "\<exists>w1. MiniExecutor_while_loop cmds m (Call cname [] li) [Call mname [] lj] i w
             = (Inl (LoopExceeded m), w1)
           \<and> invocations mname (trace w1) = invocations mname (trace w) + nat (m - int i)"
  using assms(4)
proof (induction "nat (m - int i)" arbitrary: i w)
  case 0
  from condition_true [OF assms(1), of li w] obtain w1
    where c: "MiniExecutor_evaluateCondition cmds (Call cname [] li) w = (Inr (VBool True), w1)"
      and t: "trace w1 = trace w @ [Invoke cname []]"
    by blast
  from 0 have "\<not> int i < m"
    by simp
  with c t assms(3) 0 show ?case
    by (subst MiniExecutor_while_loop.simps) (simp add: truthy_def loop_exit_def)
next
  case (Suc k)
  from condition_true [OF assms(1), of li w] Suc.prems obtain w1
    where c: "MiniExecutor_evaluateCondition cmds (Call cname [] li) w = (Inr (VBool True), w1)"
      and t1: "trace w1 = trace w @ [Invoke cname []]" and s1: "\<not> stopped w1"
    by auto
  from statement_call_returns [OF assms(2) s1, of m lj] obtain v w2
    where b: "MiniExecutor_executeStatement cmds m (Call mname [] lj) w1 = (Inr v, w2)"
      and t2: "trace w2 = trace w1 @ [Invoke mname []]" and s2: "\<not> stopped w2"
    by blast
  from Suc.hyps(2) have less: "int i < m" and k: "k = nat (m - int (i + 1))"
    by auto
  from Suc.hyps(1) [OF k s2] obtain w3
    where r: "MiniExecutor_while_loop cmds m (Call cname [] li) [Call mname [] lj] (i + 1) w2
        = (Inl (LoopExceeded m), w3)"
      and t3: "invocations mname (trace w3) = invocations mname (trace w2) + nat (m - int (i + 1))"
    by blast
  have "MiniExecutor_while_loop cmds m (Call cname [] li) [Call mname [] lj] i w
      = (Inl (LoopExceeded m), w3)"
    using c s1 b s2 less r
    by (subst MiniExecutor_while_loop.simps) (simp add: truthy_def)
  moreover have "invocations mname (trace w3) = invocations mname (trace w) + nat (m - int i)"
    using t3 t2 t1 assms(3) less by simp
  ultimately show ?case
    by blast
qed

lemma mini_tokens_while:
  "MiniLexer_tokenize (''while can_move_right():'' @ nl @ ''    move_right()'') = Inr
   [mk_token WHILE (StrValue ''while'') 1 1,
    mk_token IDENTIFIER (StrValue ''can_move_right'') 1 7, mk_token LPAREN NoValue 1 21,
    mk_token RPAREN NoValue 1 22, mk_token COLON NoValue 1 23,
    mk_token NEWLINE NoValue 1 24, mk_token INDENT NoValue 2 1,
    mk_token IDENTIFIER (StrValue ''move_right'') 2 5, mk_token LPAREN NoValue 2 15,
    mk_token RPAREN NoValue 2 16, mk_token DEDENT NoValue 2 17, mk_token EOF NoValue 2 17]"
  by code_simp

lemma parse_while_script:
  "mini_parse_source (n + 10) (''while can_move_right():'' @ nl @ ''    move_right()'')
     = Some (Inr (Program [WhileLoop (Call ''can_move_right'' [] 1) [Call ''move_right'' [] 2] 1]))"
  unfolding mini_parse_source_def mini_tokens_while fuel_plus_10
  by (simp add: MiniParser_parse_def MiniParser_parseCall_def MiniParser_parseCondition_def
      MiniParser_parseCallWithParens_def MiniParser_parseArgument_def parser_defs)

text \<open>
  Claim C3, as amended. The script \<^verbatim>\<open>while can_move_right():\<close> / \<^verbatim>\<open>    move_right()\<close>
  parses to one \<^verbatim>\<open>WhileLoop\<close>. Run against a command table whose \<^verbatim>\<open>can_move_right\<close>
  always returns \<^verbatim>\<open>true\<close> and whose \<^verbatim>\<open>move_right\<close> returns on every call, \<^verbatim>\<open>execute\<close>
  throws the iteration-limit error, and by then \<^verbatim>\<open>move_right\<close> has been invoked exactly
  \<open>maxIterations\<close> times.
\<close>

theorem C3_while_true_hits_limit:
  assumes "always_returns_true cmds ''can_move_right''" and "never_throws cmds ''move_right''"
  shows "mini_parse_source (n + 10) (''while can_move_right():'' @ nl @ ''    move_right()'')
           = Some (Inr (Program
               [WhileLoop (Call ''can_move_right'' [] 1) [Call ''move_right'' [] 2] 1]))
         \<and> (\<exists>w1. MiniExecutor_execute cmds maxIterations
                 (Program [WhileLoop (Call ''can_move_right'' [] 1) [Call ''move_right'' [] 2] 1])
                 (start h)
               = (Inl (LoopExceeded maxIterations), w1)
             \<and> invocations ''move_right'' (trace w1) = nat maxIterations)"
proof -
  have ns: "\<not> stopped (start h)" and tr: "trace (start h) = []"
    by (simp_all add: start_def)
  from while_true_exceeds [OF assms _ ns, of maxIterations 1 2 0] obtain w1
    where "MiniExecutor_while_loop cmds maxIterations (Call ''can_move_right'' [] 1)
        [Call ''move_right'' [] 2] 0 (start h) = (Inl (LoopExceeded maxIterations), w1)"
      and "invocations ''move_right'' (trace w1) = nat maxIterations"
    by (auto simp: tr)
  then have "MiniExecutor_execute cmds maxIterations
      (Program [WhileLoop (Call ''can_move_right'' [] 1) [Call ''move_right'' [] 2] 1]) (start h)
      = (Inl (LoopExceeded maxIterations), w1)
    \<and> invocations ''move_right'' (trace w1) = nat maxIterations"
    by (simp add: MiniExecutor_execute_def reset_def start_def MiniExecutor_executeStatement.simps)
  with parse_while_script [of n] show ?thesis
    by blast
qed

theorem C3_while_true_hits_limit_witness:
  "always_returns_true (counting_commands True) ''can_move_right''
   \<and> never_throws (counting_commands True) ''move_right''
   \<and> (\<exists>w1. MiniExecutor_execute (counting_commands True) 100
          (Program [WhileLoop (Call ''can_move_right'' [] 1) [Call ''move_right'' [] 2] 1])
          (start 0)
        = (Inl (LoopExceeded 100), w1)
      \<and> invocations ''move_right'' (trace w1) = 100)"
proof -
  have h1: "always_returns_true (counting_commands True) ''can_move_right''"
    by (simp add: always_returns_true_def counting_commands_def)
  have h2: "never_throws (counting_commands True) ''move_right''"
    by (simp add: never_throws_def counting_commands_def)
  from C3_while_true_hits_limit [OF h1 h2, of 0 100 0] h1 h2 show ?thesis
    by simp
qed

text \<open>
  The condition on \<^verbatim>\<open>move_right\<close> is needed: the claim as stated asks of the table only
  that \<^verbatim>\<open>can_move_right\<close> always return \<^verbatim>\<open>true\<close>, and fails without it. With the game's
  own \<^verbatim>\<open>move_right\<close> on a grid of 5 columns the fifth call throws at the right edge,
  and that error, not the iteration limit, leaves \<^verbatim>\<open>execute\<close>, after 5 invocations and
  not 100; with no \<^verbatim>\<open>move_right\<close> in the table the first round throws
  \<^verbatim>\<open>Unknown command: move_right\<close>, after no invocation at all.
\<close>

theorem C3_move_right_fails_counterexample:
  "always_returns_true (open_road_commands True) ''can_move_right''
   \<and> MiniExecutor_execute (open_road_commands True) 100
        (Program [WhileLoop (Call ''can_move_right'' [] 1) [Call ''move_right'' [] 2] 1])
        (start (new_puzzle 5))
       = (Inl (CommandFailed ''Cannot move right: already at the right edge!''),
          \<lparr>host = \<lparr>gridSize = 5, snakeX = 4, snakeY = 0, goalX = 4, goalY = 4, moves = 4,
               maxMoves = 50\<rparr>,
           trace = [Invoke ''can_move_right'' [], Invoke ''move_right'' [],
                    Invoke ''can_move_right'' [], Invoke ''move_right'' [],
                    Invoke ''can_move_right'' [], Invoke ''move_right'' [],
                    Invoke ''can_move_right'' [], Invoke ''move_right'' [],
                    Invoke ''can_move_right'' [], Invoke ''move_right'' []],
           stopped = False\<rparr>)
   \<and> invocations ''move_right''
        (trace (snd (MiniExecutor_execute (open_road_commands True) 100
           (Program [WhileLoop (Call ''can_move_right'' [] 1) [Call ''move_right'' [] 2] 1])
           (start (new_puzzle 5))))) = 5
   \<and> always_returns_true (open_road_commands False) ''can_move_right''
   \<and> MiniExecutor_execute (open_road_commands False) 100
        (Program [WhileLoop (Call ''can_move_right'' [] 1) [Call ''move_right'' [] 2] 1])
        (start (new_puzzle 5))
       = (Inl (UnknownCommand ''move_right''),
          \<lparr>host = new_puzzle 5, trace = [Invoke ''can_move_right'' []], stopped = False\<rparr>)"
proof -
  have run: "MiniExecutor_execute (open_road_commands True) 100
        (Program [WhileLoop (Call ''can_move_right'' [] 1) [Call ''move_right'' [] 2] 1])
        (start (new_puzzle 5))
       = (Inl (CommandFailed ''Cannot move right: already at the right edge!''),
          \<lparr>host = \<lparr>gridSize = 5, snakeX = 4, snakeY = 0, goalX = 4, goalY = 4, moves = 4,
               maxMoves = 50\<rparr>,
           trace = [Invoke ''can_move_right'' [], Invoke ''move_right'' [],
                    Invoke ''can_move_right'' [], Invoke ''move_right'' [],
                    Invoke ''can_move_right'' [], Invoke ''move_right'' [],
                    Invoke ''can_move_right'' [], Invoke ''move_right'' [],
                    Invoke ''can_move_right'' [], Invoke ''move_right'' []],
           stopped = False\<rparr>)"
    by code_simp
  have count: "invocations ''move_right''
        (trace (snd (MiniExecutor_execute (open_road_commands True) 100
           (Program [WhileLoop (Call ''can_move_right'' [] 1) [Call ''move_right'' [] 2] 1])
           (start (new_puzzle 5))))) = 5"
    unfolding run by simp
  have missing: "MiniExecutor_execute (open_road_commands False) 100
        (Program [WhileLoop (Call ''can_move_right'' [] 1) [Call ''move_right'' [] 2] 1])
        (start (new_puzzle 5))
       = (Inl (UnknownCommand ''move_right''),
          \<lparr>host = new_puzzle 5, trace = [Invoke ''can_move_right'' []], stopped = False\<rparr>)"
    by code_simp
  have true: "always_returns_true (open_road_commands b) ''can_move_right''" for b
    by (simp add: always_returns_true_def open_road_commands_def)
  show ?thesis
    by (rule conjI [OF true conjI [OF run conjI [OF count conjI [OF true missing]]]])
qed

subsection \<open>Branches\<close>







subsection \<open>Repetition\<close>

lemma tokens_repeat_script:
  "Lexer_tokenize (''repeat(3):'' @ nl @ ''    move_right()'') = Inr
   [mk_token REPEAT (StrValue ''repeat'') 1 1, mk_token LPAREN NoValue 1 7,
    mk_token NUMBER (NumValue 3) 1 8, mk_token RPAREN NoValue 1 9, mk_token COLON NoValue 1 10,
    mk_token NEWLINE NoValue 1 11, mk_token INDENT NoValue 2 1,
    mk_token IDENTIFIER (StrValue ''move_right'') 2 5, mk_token LPAREN NoValue 2 15,
    mk_token RPAREN NoValue 2 16, mk_token DEDENT NoValue 2 17, mk_token EOF NoValue 2 17]"
  by code_simp

lemma parse_repeat_script:
  "parseScript (n + 10) (''repeat(3):'' @ nl @ ''    move_right()'')
     = Some (Inr (Program [Repeat 3 [Call ''move_right'' [] 2] 1]))"
  unfolding parseScript_def tokens_repeat_script fuel_plus_10
  by (simp add: Parser_parse_def parser_defs)

lemma run_repeat_script:
  "Executor_execute (counting_commands True) (Program [Repeat 3 [Call ''move_right'' [] 2] 1])
        (start 0)
       = (Inr (),
          \<lparr>host = 3,
           trace = [Print (Repeating 3) ''info'',
                    Invoke ''move_right'' [], Delay 200,
                    Invoke ''move_right'' [], Delay 200,
                    Invoke ''move_right'' [], Delay 200],
           stopped = False\<rparr>)"
  by code_simp

text \<open>
  Claim C7. \<^verbatim>\<open>repeat(3):\<close> / \<^verbatim>\<open>    move_right()\<close> parses to a \<^verbatim>\<open>Repeat\<close> node with count 3
  and a body of one statement; executing it against a table that counts calls invokes
  \<^verbatim>\<open>move_right\<close> three times, each invocation followed by a delay of 200 ms.
\<close>

theorem C7_repeat_three_times:
  "parseScript (n + 10) (''repeat(3):'' @ nl @ ''    move_right()'')
     = Some (Inr (Program [Repeat 3 [Call ''move_right'' [] 2] 1]))
   \<and> Executor_execute (counting_commands True) (Program [Repeat 3 [Call ''move_right'' [] 2] 1])
        (start 0)
       = (Inr (),
          \<lparr>host = 3,
           trace = [Print (Repeating 3) ''info'',
                    Invoke ''move_right'' [], Delay 200,
                    Invoke ''move_right'' [], Delay 200,
                    Invoke ''move_right'' [], Delay 200],
           stopped = False\<rparr>)"
  using parse_repeat_script run_repeat_script by blast

subsection \<open>The iteration limit\<close>

lemma run_while_to_the_edge:
  "MiniExecutor_execute (loop_game_commands inherited) 4
      (Program [WhileLoop (Call ''can_move_right'' [] 1) [Call ''move_right'' [] 2] 1])
      (start (new_puzzle 5))
     = (Inl (LoopExceeded 4),
        \<lparr>host = \<lparr>gridSize = 5, snakeX = 4, snakeY = 0, goalX = 4, goalY = 4, moves = 4,
             maxMoves = 50\<rparr>,
         trace = [Invoke ''can_move_right'' [], Invoke ''move_right'' [],
                  Invoke ''can_move_right'' [], Invoke ''move_right'' [],
                  Invoke ''can_move_right'' [], Invoke ''move_right'' [],
                  Invoke ''can_move_right'' [], Invoke ''move_right'' [],
                  Invoke ''can_move_right'' []],
         stopped = False\<rparr>)"
  by code_simp

lemma edge_condition:
  "MiniExecutor_evaluateCondition (loop_game_commands inherited) (Call ''can_move_right'' [] li) w
     = (Inr (VBool (canMoveRight (host w))),
        w\<lparr>host := host w, trace := trace w @ [Invoke ''can_move_right'' []]\<rparr>)"
  by (simp add: MiniExecutor_evaluateCondition_def loop_game_commands_def query_command_def
      invoke_def)

lemma edge_move:
  assumes "\<not> stopped w" and "canMoveRight (host w)"
  shows "MiniExecutor_block (loop_game_commands inherited) m [Call ''move_right'' [] lj] w
     = (Inr (),
        w\<lparr>host := (host w)\<lparr>snakeX := snakeX (host w) + 1, moves := moves (host w) + 1\<rparr>,
          trace := trace w @ [Invoke ''move_right'' []]\<rparr>)"
  using assms
  by (simp add: MiniExecutor_executeStatement.simps MiniExecutor_executeCall_def
      loop_game_commands_def movement_command_def moveRight_def invoke_def)

lemma while_to_the_edge:
  assumes "\<not> stopped w" and "gridSize (host w) - 1 - snakeX (host w) = m - int i" and "int i \<le> m"
  shows "\<exists>w1. MiniExecutor_while_loop (loop_game_commands inherited) m (Call ''can_move_right'' [] li)
               [Call ''move_right'' [] lj] i w
             = (Inl (LoopExceeded m), w1)
           \<and> \<not> canMoveRight (host w1) \<and> moves (host w1) = moves (host w) + (m - int i)"
  using assms
proof (induction "nat (m - int i)" arbitrary: i w)
  case 0
  then have "\<not> canMoveRight (host w)" and "m \<le> int i"
    by (simp_all add: canMoveRight_def)
  with 0 show ?case
    by (subst MiniExecutor_while_loop.simps) (simp add: edge_condition truthy_def loop_exit_def)
next
  case (Suc k)
  let ?w1 = "w\<lparr>host := host w, trace := trace w @ [Invoke ''can_move_right'' []]\<rparr>"
  let ?w2 = "?w1\<lparr>host := (host ?w1)\<lparr>snakeX := snakeX (host ?w1) + 1, moves := moves (host ?w1) + 1\<rparr>,
          trace := trace ?w1 @ [Invoke ''move_right'' []]\<rparr>"
  from Suc.hyps(2) Suc.prems have can: "canMoveRight (host w)" and less: "int i < m"
    by (simp_all add: canMoveRight_def)
  from Suc.prems(1) can have body: "MiniExecutor_block (loop_game_commands inherited) m [Call ''move_right'' [] lj] ?w1
      = (Inr (), ?w2)"
    by (intro edge_move) simp_all
  have k: "k = nat (m - int (i + 1))"
    using Suc.hyps(2) by simp
  have "\<not> stopped ?w2" "gridSize (host ?w2) - 1 - snakeX (host ?w2) = m - int (i + 1)"
    "int (i + 1) \<le> m"
    using Suc.prems less by simp_all
  from Suc.hyps(1) [OF k this] obtain w3
    where r: "MiniExecutor_while_loop (loop_game_commands inherited) m (Call ''can_move_right'' [] li)
        [Call ''move_right'' [] lj] (i + 1) ?w2 = (Inl (LoopExceeded m), w3)"
      and e: "\<not> canMoveRight (host w3)" and mv: "moves (host w3) = moves (host ?w2) + (m - int (i + 1))"
    by blast
  have "MiniExecutor_while_loop (loop_game_commands inherited) m (Call ''can_move_right'' [] li)
      [Call ''move_right'' [] lj] i w = (Inl (LoopExceeded m), w3)"
    using can less Suc.prems(1) body r
    by (subst MiniExecutor_while_loop.simps) (simp add: edge_condition truthy_def)
  with e mv show ?case
    by simp
qed

lemma run_to_the_edge:
  assumes "0 \<le> m"
  shows "\<exists>w1. MiniExecutor_execute (loop_game_commands inherited) m
             (Program [WhileLoop (Call ''can_move_right'' [] 1) [Call ''move_right'' [] 2] 1])
             (start (new_puzzle (m + 1)))
           = (Inl (LoopExceeded m), w1)
         \<and> \<not> canMoveRight (host w1) \<and> moves (host w1) = m"
proof -
  have "\<not> stopped (start (new_puzzle (m + 1)))"
    "gridSize (host (start (new_puzzle (m + 1)))) - 1 - snakeX (host (start (new_puzzle (m + 1))))
      = m - int 0"
    "int 0 \<le> m"
    using assms by (simp_all add: start_def new_puzzle_def)
  from while_to_the_edge [where li = 1 and lj = 2, OF this] obtain w1
    where "MiniExecutor_while_loop (loop_game_commands inherited) m (Call ''can_move_right'' [] 1)
        [Call ''move_right'' [] 2] 0 (start (new_puzzle (m + 1))) = (Inl (LoopExceeded m), w1)"
      and "\<not> canMoveRight (host w1)" and "moves (host w1) = m"
    by (auto simp: start_def new_puzzle_def)
  then show ?thesis
    by (simp add: MiniExecutor_execute_def reset_def start_def MiniExecutor_executeStatement.simps)
qed

text \<open>
  Claim C2 fails on the code. On a grid of 5 columns with \<open>maxIterations = 4\<close> the
  condition \<^verbatim>\<open>can_move_right()\<close> is false after exactly 4 rounds and the loop ends by its
  condition, yet \<^verbatim>\<open>executeWhileLoop\<close> throws ``Loop exceeded maximum iterations (4)'';
  the same happens with the default limit of 100 on a grid of 101 columns. The run calls
  no inherited member of the table, so it is the same whatever these do.
\<close>

theorem C2_limit_raised_at_exactly_max:
  "mini_parse_source (n + 10) (''while can_move_right():'' @ nl @ ''    move_right()'')
     = Some (Inr (Program
         [WhileLoop (Call ''can_move_right'' [] 1) [Call ''move_right'' [] 2] 1]))
   \<and> MiniExecutor_execute (loop_game_commands inherited) 4
        (Program [WhileLoop (Call ''can_move_right'' [] 1) [Call ''move_right'' [] 2] 1])
        (start (new_puzzle 5))
       = (Inl (LoopExceeded 4),
          \<lparr>host = \<lparr>gridSize = 5, snakeX = 4, snakeY = 0, goalX = 4, goalY = 4, moves = 4,
               maxMoves = 50\<rparr>,
           trace = [Invoke ''can_move_right'' [], Invoke ''move_right'' [],
                    Invoke ''can_move_right'' [], Invoke ''move_right'' [],
                    Invoke ''can_move_right'' [], Invoke ''move_right'' [],
                    Invoke ''can_move_right'' [], Invoke ''move_right'' [],
                    Invoke ''can_move_right'' []],
           stopped = False\<rparr>)
   \<and> \<not> canMoveRight \<lparr>gridSize = 5, snakeX = 4, snakeY = 0, goalX = 4, goalY = 4, moves = 4,
          maxMoves = 50\<rparr>
   \<and> (\<exists>w1. MiniExecutor_execute (loop_game_commands inherited) 100
          (Program [WhileLoop (Call ''can_move_right'' [] 1) [Call ''move_right'' [] 2] 1])
          (start (new_puzzle 101))
        = (Inl (LoopExceeded 100), w1)
      \<and> \<not> canMoveRight (host w1) \<and> moves (host w1) = 100)"
proof (intro conjI)
  show "mini_parse_source (n + 10) (''while can_move_right():'' @ nl @ ''    move_right()'')
     = Some (Inr (Program
         [WhileLoop (Call ''can_move_right'' [] 1) [Call ''move_right'' [] 2] 1]))"
    by (rule parse_while_script)
  show "MiniExecutor_execute (loop_game_commands inherited) 4
        (Program [WhileLoop (Call ''can_move_right'' [] 1) [Call ''move_right'' [] 2] 1])
        (start (new_puzzle 5))
       = (Inl (LoopExceeded 4),
          \<lparr>host = \<lparr>gridSize = 5, snakeX = 4, snakeY = 0, goalX = 4, goalY = 4, moves = 4,
               maxMoves = 50\<rparr>,
           trace = [Invoke ''can_move_right'' [], Invoke ''move_right'' [],
                    Invoke ''can_move_right'' [], Invoke ''move_right'' [],
                    Invoke ''can_move_right'' [], Invoke ''move_right'' [],
                    Invoke ''can_move_right'' [], Invoke ''move_right'' [],
                    Invoke ''can_move_right'' []],
           stopped = False\<rparr>)"
    by (rule run_while_to_the_edge)
  show "\<not> canMoveRight \<lparr>gridSize = 5, snakeX = 4, snakeY = 0, goalX = 4, goalY = 4, moves = 4,
          maxMoves = 50\<rparr>"
    by (simp add: canMoveRight_def)
  from run_to_the_edge [of 100]
  show "\<exists>w1. MiniExecutor_execute (loop_game_commands inherited) 100
          (Program [WhileLoop (Call ''can_move_right'' [] 1) [Call ''move_right'' [] 2] 1])
          (start (new_puzzle 101))
        = (Inl (LoopExceeded 100), w1)
      \<and> \<not> canMoveRight (host w1) \<and> moves (host w1) = 100"
    by simp
qed

section \<open>Properties of SnakePuzzle\<close>

lemma moveUp_atomic: "atomic_move p (moveUp p)"
  by (simp add: atomic_move_def one_cell_def moveUp_def)

lemma moveDown_atomic: "atomic_move p (moveDown p)"
  by (simp add: atomic_move_def one_cell_def moveDown_def)

lemma moveLeft_atomic: "atomic_move p (moveLeft p)"
  by (simp add: atomic_move_def one_cell_def moveLeft_def)

lemma moveRight_atomic: "atomic_move p (moveRight p)"
  by (simp add: atomic_move_def one_cell_def moveRight_def)

lemma moveUp_on_grid: "on_grid p \<Longrightarrow> on_grid (snd (moveUp p))"
  by (auto simp: on_grid_def moveUp_def canMoveUp_def)

lemma moveDown_on_grid: "on_grid p \<Longrightarrow> on_grid (snd (moveDown p))"
  by (auto simp: on_grid_def moveDown_def canMoveDown_def)

lemma moveLeft_on_grid: "on_grid p \<Longrightarrow> on_grid (snd (moveLeft p))"
  by (auto simp: on_grid_def moveLeft_def canMoveLeft_def)

lemma moveRight_on_grid: "on_grid p \<Longrightarrow> on_grid (snd (moveRight p))"
  by (auto simp: on_grid_def moveRight_def canMoveRight_def)

text \<open>
  Claim C10. Each of \<^verbatim>\<open>moveUp\<close>, \<^verbatim>\<open>moveDown\<close>, \<^verbatim>\<open>moveLeft\<close> and \<^verbatim>\<open>moveRight\<close> keeps the
  snake on the grid (\<open>0 \<le> snakeX \<le> gridSize - 1\<close> and \<open>0 \<le> snakeY \<le> gridSize - 1\<close>),
  and is atomic: it returns \<^verbatim>\<open>true\<close> having moved the snake exactly one cell and
  raised \<open>moves\<close> by exactly one, or it throws and leaves the whole state as it was.
\<close>

theorem C10_movement_invariant_atomic:
  assumes "on_grid p" and "m \<in> set movements"
  shows "on_grid (snd (m p)) \<and> atomic_move p (m p)"
  using assms
  by (auto simp: movements_def moveUp_on_grid moveDown_on_grid moveLeft_on_grid
      moveRight_on_grid moveUp_atomic moveDown_atomic moveLeft_atomic moveRight_atomic)

theorem C10_movement_invariant_atomic_witness:
  "on_grid (new_puzzle 5) \<and> moveRight \<in> set movements
   \<and> on_grid (snd (moveRight (new_puzzle 5)))
   \<and> atomic_move (new_puzzle 5) (moveRight (new_puzzle 5))
   \<and> fst (moveRight (new_puzzle 5)) = Inr True
   \<and> snakeX (snd (moveRight (new_puzzle 5))) = 1
   \<and> fst (moveUp (new_puzzle 5)) = Inl ''Cannot move up: already at the top edge!''
   \<and> snd (moveUp (new_puzzle 5)) = new_puzzle 5"
proof -
  have h1: "on_grid (new_puzzle 5)"
    by (simp add: on_grid_def new_puzzle_def)
  have h2: "moveRight \<in> set movements"
    by (simp add: movements_def)
  show ?thesis
    using h1 h2 C10_movement_invariant_atomic [OF h1 h2]
    by (simp add: moveRight_def moveUp_def canMoveRight_def canMoveUp_def new_puzzle_def)
qed


end
